theory Spec2Isabelle
  imports Main "HOL-Library.Char_ord" "HOL-Library.List_Lexorder" "HOL-Library.Sublist"
begin

section \<open>Python values and dictionaries\<close>

text \<open>
  The values that move through \<^verbatim>\<open>src/appset.py\<close> and \<^verbatim>\<open>src/models.py\<close> are what
  the YAML and JSON loaders build: \<^verbatim>\<open>None\<close>, booleans, integers, strings, lists and
  dictionaries with string keys. A string is a list of characters, one \<open>char\<close> per
  Python character. A dictionary is an association list in insertion order, as a Python
  \<^verbatim>\<open>dict\<close> is; its keys are distinct wherever the functions below build it.
\<close>

datatype pyval =
    PNone
  | PBool bool
  | PInt int
  | PStr string
  | PList "pyval list"
  | PDict "(string \<times> pyval) list"

type_synonym pydict = "(string \<times> pyval) list"

text \<open>\<^verbatim>\<open>d.get(k)\<close>: the value stored under \<open>k\<close>, if any.\<close>

definition dict_get :: "pydict \<Rightarrow> string \<Rightarrow> pyval option" where
  "dict_get d k = map_of d k"

text \<open>\<^verbatim>\<open>d.get(k, default)\<close>.\<close>

definition dict_get_default :: "pydict \<Rightarrow> string \<Rightarrow> pyval \<Rightarrow> pyval" where
  "dict_get_default d k dflt = (case map_of d k of None \<Rightarrow> dflt | Some v \<Rightarrow> v)"

text \<open>\<^verbatim>\<open>k in d\<close>.\<close>

definition dict_contains :: "pydict \<Rightarrow> string \<Rightarrow> bool" where
  "dict_contains d k = (map_of d k \<noteq> None)"

text \<open>
  \<^verbatim>\<open>d[k] = v\<close>: a key already present keeps its position and takes the new value, a new
  key goes to the end.
\<close>

fun dict_setitem :: "('k \<times> 'v) list \<Rightarrow> 'k \<Rightarrow> 'v \<Rightarrow> ('k \<times> 'v) list" where
  "dict_setitem [] k v = [(k, v)]"
| "dict_setitem ((k', v') # d) k v =
     (if k' = k then (k, v) # d else (k', v') # dict_setitem d k v)"

text \<open>\<^verbatim>\<open>d.update(other)\<close>: the items of \<open>other\<close> are stored one by one, in their order.\<close>

fun dict_update :: "pydict \<Rightarrow> pydict \<Rightarrow> pydict" where
  "dict_update d [] = d"
| "dict_update d ((k, v) # other) = dict_update (dict_setitem d k v) other"

text \<open>
  \<^verbatim>\<open>str(v)\<close>. On a string it is the string itself. The text Python prints for any other
  value (a number, a boolean, \<^verbatim>\<open>None\<close>, a container) is the parameter \<open>fmt\<close>: no
  function below depends on what that text is.
\<close>

definition py_str :: "(pyval \<Rightarrow> string) \<Rightarrow> pyval \<Rightarrow> string" where
  "py_str fmt v = (case v of PStr s \<Rightarrow> s | _ \<Rightarrow> fmt v)"

text \<open>Python's truth value of an object, as \<^verbatim>\<open>if x:\<close> tests it.\<close>

fun truthy :: "pyval \<Rightarrow> bool" where
  "truthy PNone = False"
| "truthy (PBool b) = b"
| "truthy (PInt i) = (i \<noteq> 0)"
| "truthy (PStr s) = (s \<noteq> [])"
| "truthy (PList xs) = (xs \<noteq> [])"
| "truthy (PDict d) = (d \<noteq> [])"

section \<open>Name Normalizer (\<^verbatim>\<open>_normalize_name\<close>, appset.py 421-426)\<close>

text \<open>
  \<^verbatim>\<open>re.sub(r"[^a-zA-Z0-9-]", "-", name).strip("-").lower()\<close>
\<close>

definition is_lower :: "char \<Rightarrow> bool" where
  "is_lower c = (CHR ''a'' \<le> c \<and> c \<le> CHR ''z'')"

definition is_upper :: "char \<Rightarrow> bool" where
  "is_upper c = (CHR ''A'' \<le> c \<and> c \<le> CHR ''Z'')"

definition is_digit :: "char \<Rightarrow> bool" where
  "is_digit c = (CHR ''0'' \<le> c \<and> c \<le> CHR ''9'')"

text \<open>The character class \<^verbatim>\<open>[a-zA-Z0-9-]\<close>.\<close>

definition in_name_class :: "char \<Rightarrow> bool" where
  "in_name_class c = (is_lower c \<or> is_upper c \<or> is_digit c \<or> c = CHR ''-'')"

text \<open>\<^verbatim>\<open>re.sub(r"[^a-zA-Z0-9-]", "-", name)\<close>: every character outside the class becomes a hyphen.\<close>

definition sub_non_name_chars :: "string \<Rightarrow> string" where
  "sub_non_name_chars name = map (\<lambda>c. if in_name_class c then c else CHR ''-'') name"

text \<open>\<^verbatim>\<open>s.strip("-")\<close>: the leading and the trailing hyphens are removed.\<close>

definition strip_hyphens :: "string \<Rightarrow> string" where
  "strip_hyphens s =
     rev (dropWhile (\<lambda>c. c = CHR ''-'') (rev (dropWhile (\<lambda>c. c = CHR ''-'') s)))"

text \<open>
  \<^verbatim>\<open>s.lower()\<close> on one character: an upper-case ASCII letter moves 32 code points up.
  Every character that reaches \<^verbatim>\<open>lower\<close> in \<^verbatim>\<open>_normalize_name\<close> is in the class
  \<^verbatim>\<open>[a-zA-Z0-9-]\<close>, where this is all \<^verbatim>\<open>str.lower\<close> does.
\<close>

definition lower_char :: "char \<Rightarrow> char" where
  "lower_char c = (if is_upper c then char_of (of_char c + (32::nat)) else c)"

definition normalize_name :: "string \<Rightarrow> string" where
  "normalize_name name = map lower_char (strip_hyphens (sub_non_name_chars name))"

text \<open>The pattern \<^verbatim>\<open>^[a-z0-9-]*$\<close>, and the absence of a hyphen at either end.\<close>

definition matches_normalized_pattern :: "string \<Rightarrow> bool" where
  "matches_normalized_pattern s = list_all (\<lambda>c. is_lower c \<or> is_digit c \<or> c = CHR ''-'') s"

definition no_edge_hyphen :: "string \<Rightarrow> bool" where
  "no_edge_hyphen s = (s = [] \<or> (hd s \<noteq> CHR ''-'' \<and> last s \<noteq> CHR ''-''))"

subsection \<open>The text of numbers\<close>

text \<open>
  \<^verbatim>\<open>str(n)\<close> for a natural number and for an integer: the decimal digits, as an
  f-string writes an index. \<open>scalar_text\<close> is Python's \<^verbatim>\<open>str\<close> on \<^verbatim>\<open>None\<close>, the
  booleans and the integers; it stands for the parameter \<open>fmt\<close> in the examples, none
  of which renders a container.
\<close>

definition digit_char :: "nat \<Rightarrow> char" where
  "digit_char d = char_of (of_char CHR ''0'' + d)"

fun str_nat :: "nat \<Rightarrow> string" where
  "str_nat n = (if n < 10 then [digit_char n] else str_nat (n div 10) @ [digit_char (n mod 10)])"

declare str_nat.simps [simp del]

definition str_int :: "int \<Rightarrow> string" where
  "str_int i = (if i < 0 then CHR ''-'' # str_nat (nat (- i)) else str_nat (nat i))"

fun scalar_text :: "pyval \<Rightarrow> string" where
  "scalar_text PNone = ''None''"
| "scalar_text (PBool b) = (if b then ''True'' else ''False'')"
| "scalar_text (PInt i) = str_int i"
| "scalar_text (PStr s) = s"
| "scalar_text (PList xs) = ''[...]''"
| "scalar_text (PDict d) = ''{...}''"

section \<open>Errors\<close>

text \<open>
  The exceptions that can leave the functions modelled here. A parameter of type
  \<^verbatim>\<open>Any\<close> is checked where the source uses it: calling \<^verbatim>\<open>.get\<close> or
  \<^verbatim>\<open>.items\<close> on a value that is no dictionary raises \<^verbatim>\<open>AttributeError\<close>, iterating
  over a value that is not iterable, or hashing a list or a dictionary, raises
  \<^verbatim>\<open>TypeError\<close>, \<^verbatim>\<open>d[k]\<close> on a missing key raises \<^verbatim>\<open>KeyError\<close>.
  \<^verbatim>\<open>ResolveError\<close> is whatever the repository resolver raises, \<^verbatim>\<open>GlobError\<close>
  what \<^verbatim>\<open>Path.glob\<close> raises on a pattern it does not accept, and
  \<^verbatim>\<open>UnicodeDecodeError\<close> is what \<^verbatim>\<open>Path.read_text\<close> raises on bytes that are no text.
\<close>

datatype py_error =
  TypeError | AttributeError | KeyError | ResolveError | GlobError | UnicodeDecodeError

text \<open>\<^verbatim>\<open>for v in x\<close>: the elements a value yields when iterated.\<close>

fun py_iter :: "pyval \<Rightarrow> py_error + pyval list" where
  "py_iter (PList xs) = Inr xs"
| "py_iter (PStr s) = Inr (map (\<lambda>c. PStr [c]) s)"
| "py_iter (PDict d) = Inr (map (\<lambda>kv. PStr (fst kv)) d)"
| "py_iter v = Inl TypeError"

text \<open>
  \<^verbatim>\<open>params.get(key, "")\<close> and \<^verbatim>\<open>key in params\<close> for a key of type \<^verbatim>\<open>Any\<close>: the keys of
  a parameter set are strings, so no other hashable key is ever found, and a list or a
  dictionary cannot be hashed.
\<close>

fun params_get :: "pydict \<Rightarrow> pyval \<Rightarrow> py_error + pyval" where
  "params_get params (PStr k) = Inr (dict_get_default params k (PStr ''''))"
| "params_get params (PList xs) = Inl TypeError"
| "params_get params (PDict d) = Inl TypeError"
| "params_get params key = Inr (PStr '''')"

fun params_contains :: "pydict \<Rightarrow> pyval \<Rightarrow> bool" where
  "params_contains params (PStr k) = dict_contains params k"
| "params_contains params key = False"

section \<open>Selector Filter (\<^verbatim>\<open>_apply_selector\<close>, \<^verbatim>\<open>_matches_selector\<close>, appset.py 429-475)\<close>

text \<open>
  The first loop of \<^verbatim>\<open>_matches_selector\<close>: the first label whose text differs from the
  text of the parameter (the empty string when the key is missing) returns \<^verbatim>\<open>False\<close>.
\<close>

fun match_labels_loop :: "(pyval \<Rightarrow> string) \<Rightarrow> pydict \<Rightarrow> pydict \<Rightarrow> bool" where
  "match_labels_loop fmt params [] = True"
| "match_labels_loop fmt params ((key, val) # rest) =
     (if py_str fmt (dict_get_default params key (PStr '''')) \<noteq> py_str fmt val then False
      else match_labels_loop fmt params rest)"

text \<open>
  The second loop: one expression after the other, in the order of the
  \<^verbatim>\<open>if\<close>/\<^verbatim>\<open>elif\<close> chain on the operator; an operator that is none of the four
  falls through the chain.
\<close>

fun as_dict :: "pyval \<Rightarrow> py_error + pydict" where
  "as_dict (PDict d) = Inr d"
| "as_dict v = Inl AttributeError"

fun match_expressions_loop ::
  "(pyval \<Rightarrow> string) \<Rightarrow> pydict \<Rightarrow> pyval list \<Rightarrow> py_error + bool" where
  "match_expressions_loop fmt params [] = Inr True"
| "match_expressions_loop fmt params (e # rest) =
     (case as_dict e of
        Inl err \<Rightarrow> Inl err
      | Inr expr \<Rightarrow>
         (let key = dict_get_default expr ''key'' (PStr '''');
              operator = dict_get_default expr ''operator'' (PStr '''');
              vals = dict_get_default expr ''values'' (PList [])
          in case params_get params key of
               Inl err \<Rightarrow> Inl err
             | Inr found \<Rightarrow>
                (let param_value = py_str fmt found in
                 if operator = PStr ''In'' then
                   (case py_iter vals of
                      Inl err \<Rightarrow> Inl err
                    | Inr vs \<Rightarrow>
                        if param_value \<notin> set (map (py_str fmt) vs) then Inr False
                        else match_expressions_loop fmt params rest)
                 else if operator = PStr ''NotIn'' then
                   (case py_iter vals of
                      Inl err \<Rightarrow> Inl err
                    | Inr vs \<Rightarrow>
                        if param_value \<in> set (map (py_str fmt) vs) then Inr False
                        else match_expressions_loop fmt params rest)
                 else if operator = PStr ''Exists'' then
                   (if \<not> params_contains params key then Inr False
                    else match_expressions_loop fmt params rest)
                 else if operator = PStr ''DoesNotExist'' then
                   (if params_contains params key then Inr False
                    else match_expressions_loop fmt params rest)
                 else match_expressions_loop fmt params rest)))"

text \<open>
  \<^verbatim>\<open>_matches_selector\<close>. Both arguments come out of \<^verbatim>\<open>selector.get\<close> and are of
  type \<^verbatim>\<open>Any\<close>: \<^verbatim>\<open>match_labels.items()\<close> needs a dictionary, and the second
  loop, reached only when every label matched, iterates over \<^verbatim>\<open>match_expressions\<close>.
\<close>

definition matches_selector ::
  "(pyval \<Rightarrow> string) \<Rightarrow> pydict \<Rightarrow> pyval \<Rightarrow> pyval \<Rightarrow> py_error + bool" where
  "matches_selector fmt params match_labels match_expressions =
     (case as_dict match_labels of
        Inl err \<Rightarrow> Inl err
      | Inr labels \<Rightarrow>
          if \<not> match_labels_loop fmt params labels then Inr False
          else (case py_iter match_expressions of
                  Inl err \<Rightarrow> Inl err
                | Inr exprs \<Rightarrow> match_expressions_loop fmt params exprs))"

text \<open>The loop of \<^verbatim>\<open>_apply_selector\<close>: the parameter sets that match, in their order.\<close>

fun apply_selector_loop ::
  "(pyval \<Rightarrow> string) \<Rightarrow> pyval \<Rightarrow> pyval \<Rightarrow> pydict list \<Rightarrow> py_error + pydict list" where
  "apply_selector_loop fmt match_labels match_expressions [] = Inr []"
| "apply_selector_loop fmt match_labels match_expressions (p # params) =
     (case matches_selector fmt p match_labels match_expressions of
        Inl err \<Rightarrow> Inl err
      | Inr keep \<Rightarrow>
         (case apply_selector_loop fmt match_labels match_expressions params of
            Inl err \<Rightarrow> Inl err
          | Inr filtered \<Rightarrow> Inr (if keep then p # filtered else filtered)))"

definition apply_selector ::
  "(pyval \<Rightarrow> string) \<Rightarrow> pydict list \<Rightarrow> pyval \<Rightarrow> py_error + pydict list" where
  "apply_selector fmt params selector =
     (case as_dict selector of
        Inl err \<Rightarrow> Inl err
      | Inr sel \<Rightarrow>
          apply_selector_loop fmt
            (dict_get_default sel ''matchLabels'' (PDict []))
            (dict_get_default sel ''matchExpressions'' (PList []))
            params)"

text \<open>
  The last step of \<^verbatim>\<open>_expand_generator\<close> (appset.py 84-85 and 107-111):
  \<^verbatim>\<open>selector = generator.get("selector")\<close>, and the filter runs only
  \<^verbatim>\<open>if selector:\<close>.
\<close>

definition filter_by_selector ::
  "(pyval \<Rightarrow> string) \<Rightarrow> pydict \<Rightarrow> pydict list \<Rightarrow> py_error + pydict list" where
  "filter_by_selector fmt generator params =
     (let selector = dict_get_default generator ''selector'' PNone
      in if truthy selector then apply_selector fmt params selector else Inr params)"

subsection \<open>The selector as the specification words it\<close>

text \<open>
  A selector expression is well formed when it is a dictionary whose \<^verbatim>\<open>key\<close> can be
  hashed and whose \<^verbatim>\<open>values\<close>, where the operator reads them, can be iterated.
\<close>

fun hashable :: "pyval \<Rightarrow> bool" where
  "hashable (PList xs) = False"
| "hashable (PDict d) = False"
| "hashable v = True"



text \<open>The text of the parameter under a key, the empty string when the key is missing.\<close>

definition spec_param_text :: "(pyval \<Rightarrow> string) \<Rightarrow> pydict \<Rightarrow> pyval \<Rightarrow> string" where
  "spec_param_text fmt params key =
     (if params_contains params key
      then (case key of PStr k \<Rightarrow> py_str fmt (dict_get_default params k (PStr '''')) | _ \<Rightarrow> '''')
      else '''')"

text \<open>The texts of the expression's value list.\<close>

definition spec_value_texts :: "(pyval \<Rightarrow> string) \<Rightarrow> pyval \<Rightarrow> string set" where
  "spec_value_texts fmt vals =
     (case py_iter vals of Inl err \<Rightarrow> {} | Inr vs \<Rightarrow> set (map (py_str fmt) vs))"

text \<open>
  An expression is satisfied per its operator: \<^verbatim>\<open>In\<close>, the parameter's text is a member
  of the value list; \<^verbatim>\<open>NotIn\<close>, it is not; \<^verbatim>\<open>Exists\<close>, the key is present;
  \<^verbatim>\<open>DoesNotExist\<close>, the key is absent.
\<close>

fun spec_expression_satisfied :: "(pyval \<Rightarrow> string) \<Rightarrow> pydict \<Rightarrow> pyval \<Rightarrow> bool" where
  "spec_expression_satisfied fmt params (PDict expr) =
     (let key = dict_get_default expr ''key'' (PStr '''');
          operator = dict_get_default expr ''operator'' (PStr '''');
          vals = dict_get_default expr ''values'' (PList [])
      in (operator = PStr ''In'' \<longrightarrow> spec_param_text fmt params key \<in> spec_value_texts fmt vals)
       \<and> (operator = PStr ''NotIn'' \<longrightarrow> spec_param_text fmt params key \<notin> spec_value_texts fmt vals)
       \<and> (operator = PStr ''Exists'' \<longrightarrow> params_contains params key)
       \<and> (operator = PStr ''DoesNotExist'' \<longrightarrow> \<not> params_contains params key))"
| "spec_expression_satisfied fmt params v = False"


section \<open>Template Substitutor (\<^verbatim>\<open>substitute_params\<close>, \<^verbatim>\<open>substitute_params_deep\<close>, models.py 236-264)\<close>

text \<open>
  \<^verbatim>\<open>s.replace(old, new)\<close>: the occurrences of \<open>old\<close> are found from the left and do
  not overlap; an empty \<open>old\<close> matches before every character and at the end.
\<close>

function replace_str :: "string \<Rightarrow> string \<Rightarrow> string \<Rightarrow> string" where
  "replace_str old new [] = (if old = [] then new else [])"
| "replace_str old new (c # cs) =
     (if old = [] then new @ c # replace_str old new cs
      else if prefix old (c # cs) then new @ replace_str old new (drop (length old) (c # cs))
      else c # replace_str old new cs)"
  by pat_completeness auto
termination
  by (relation "measure (\<lambda>(old, new, s). length s)") auto

text \<open>
  \<^verbatim>\<open>sorted(params.keys(), key=len, reverse=True)\<close>: the keys by falling length; the sort
  is stable, so keys of one length stay in the order of the dictionary.
\<close>

definition keys_longest_first :: "pydict \<Rightarrow> string list" where
  "keys_longest_first params = sort_key (\<lambda>k. - int (length k)) (map fst params)"

text \<open>
  The loop of \<^verbatim>\<open>substitute_params\<close>. \<^verbatim>\<open>params[key]\<close> raises \<^verbatim>\<open>KeyError\<close> on a key
  that is missing.
\<close>

fun substitute_loop ::
  "(pyval \<Rightarrow> string) \<Rightarrow> pydict \<Rightarrow> string list \<Rightarrow> string \<Rightarrow> py_error + string" where
  "substitute_loop fmt params [] result = Inr result"
| "substitute_loop fmt params (key # keys) result =
     (case dict_get params key of
        None \<Rightarrow> Inl KeyError
      | Some v \<Rightarrow>
          substitute_loop fmt params keys
            (replace_str (''{{'' @ key @ ''}}'') (py_str fmt v) result))"

fun substitute_params :: "(pyval \<Rightarrow> string) \<Rightarrow> pyval \<Rightarrow> pydict \<Rightarrow> py_error + pyval" where
  "substitute_params fmt (PStr text) params =
     (case substitute_loop fmt params (keys_longest_first params) text of
        Inl err \<Rightarrow> Inl err
      | Inr result \<Rightarrow> Inr (PStr result))"
| "substitute_params fmt text params = Inr text"

text \<open>
  \<^verbatim>\<open>substitute_params_deep\<close>, with the dictionary comprehension and the list
  comprehension as the two loops \<open>substitute_items\<close> and \<open>substitute_elements\<close>.
\<close>

fun substitute_params_deep :: "(pyval \<Rightarrow> string) \<Rightarrow> pyval \<Rightarrow> pydict \<Rightarrow> py_error + pyval"
  and substitute_items ::
    "(pyval \<Rightarrow> string) \<Rightarrow> (string \<times> pyval) list \<Rightarrow> pydict \<Rightarrow> py_error + (string \<times> pyval) list"
  and substitute_elements ::
    "(pyval \<Rightarrow> string) \<Rightarrow> pyval list \<Rightarrow> pydict \<Rightarrow> py_error + pyval list"
where
  "substitute_params_deep fmt (PStr s) params = substitute_params fmt (PStr s) params"
| "substitute_params_deep fmt (PDict d) params =
     (case substitute_items fmt d params of Inl err \<Rightarrow> Inl err | Inr d' \<Rightarrow> Inr (PDict d'))"
| "substitute_params_deep fmt (PList xs) params =
     (case substitute_elements fmt xs params of Inl err \<Rightarrow> Inl err | Inr xs' \<Rightarrow> Inr (PList xs'))"
| "substitute_params_deep fmt PNone params = Inr PNone"
| "substitute_params_deep fmt (PBool b) params = Inr (PBool b)"
| "substitute_params_deep fmt (PInt i) params = Inr (PInt i)"
| "substitute_items fmt [] params = Inr []"
| "substitute_items fmt ((k, v) # d) params =
     (case substitute_params_deep fmt v params of
        Inl err \<Rightarrow> Inl err
      | Inr v' \<Rightarrow>
         (case substitute_items fmt d params of
            Inl err \<Rightarrow> Inl err
          | Inr d' \<Rightarrow> Inr ((k, v') # d')))"
| "substitute_elements fmt [] params = Inr []"
| "substitute_elements fmt (x # xs) params =
     (case substitute_params_deep fmt x params of
        Inl err \<Rightarrow> Inl err
      | Inr x' \<Rightarrow>
         (case substitute_elements fmt xs params of
            Inl err \<Rightarrow> Inl err
          | Inr xs' \<Rightarrow> Inr (x' # xs')))"

subsection \<open>The substitutor as the specification words it\<close>

text \<open>
  For a string: for every parameter key, longest key first, every literal occurrence of
  \<^verbatim>\<open>{{key}}\<close> is replaced by the text of that key's value.
\<close>

definition spec_substitute :: "(pyval \<Rightarrow> string) \<Rightarrow> string \<Rightarrow> pydict \<Rightarrow> string" where
  "spec_substitute fmt text params =
     foldl (\<lambda>acc kv. replace_str (''{{'' @ fst kv @ ''}}'') (py_str fmt (snd kv)) acc) text
       (sort_key (\<lambda>kv. - int (length (fst kv))) params)"

text \<open>Maps and sequences are recursed into, other scalars pass through.\<close>

fun spec_substitute_deep :: "(pyval \<Rightarrow> string) \<Rightarrow> pyval \<Rightarrow> pydict \<Rightarrow> pyval"
  and spec_substitute_fields ::
    "(pyval \<Rightarrow> string) \<Rightarrow> (string \<times> pyval) list \<Rightarrow> pydict \<Rightarrow> (string \<times> pyval) list"
  and spec_substitute_seq :: "(pyval \<Rightarrow> string) \<Rightarrow> pyval list \<Rightarrow> pydict \<Rightarrow> pyval list"
where
  "spec_substitute_deep fmt (PStr s) params = PStr (spec_substitute fmt s params)"
| "spec_substitute_deep fmt (PDict d) params = PDict (spec_substitute_fields fmt d params)"
| "spec_substitute_deep fmt (PList xs) params = PList (spec_substitute_seq fmt xs params)"
| "spec_substitute_deep fmt PNone params = PNone"
| "spec_substitute_deep fmt (PBool b) params = PBool b"
| "spec_substitute_deep fmt (PInt i) params = PInt i"
| "spec_substitute_fields fmt [] params = []"
| "spec_substitute_fields fmt ((k, v) # d) params =
     (k, spec_substitute_deep fmt v params) # spec_substitute_fields fmt d params"
| "spec_substitute_seq fmt [] params = []"
| "spec_substitute_seq fmt (x # xs) params =
     spec_substitute_deep fmt x params # spec_substitute_seq fmt xs params"

text \<open>
  The structure of a value: its maps with their keys, its sequences with their lengths,
  its scalars other than strings; every string is blanked.
\<close>

fun structure_of :: "pyval \<Rightarrow> pyval"
  and structure_of_fields :: "(string \<times> pyval) list \<Rightarrow> (string \<times> pyval) list"
  and structure_of_seq :: "pyval list \<Rightarrow> pyval list"
where
  "structure_of (PStr s) = PStr []"
| "structure_of (PDict d) = PDict (structure_of_fields d)"
| "structure_of (PList xs) = PList (structure_of_seq xs)"
| "structure_of PNone = PNone"
| "structure_of (PBool b) = PBool b"
| "structure_of (PInt i) = PInt i"
| "structure_of_fields [] = []"
| "structure_of_fields ((k, v) # d) = (k, structure_of v) # structure_of_fields d"
| "structure_of_seq [] = []"
| "structure_of_seq (x # xs) = structure_of x # structure_of_seq xs"

text \<open>\<open>old\<close> occurs in \<open>s\<close> as a literal substring: it is a prefix of \<open>s\<close> or occurs further on.\<close>

fun occurs_in :: "string \<Rightarrow> string \<Rightarrow> bool" where
  "occurs_in old [] = (old = [])"
| "occurs_in old (c # cs) = (prefix old (c # cs) \<or> occurs_in old cs)"

section \<open>Paths and the repository directory\<close>

text \<open>\<^verbatim>\<open>s.split(sep)\<close> for a separator of one character, and \<^verbatim>\<open>sep.join(parts)\<close>.\<close>

fun split_on :: "char \<Rightarrow> string \<Rightarrow> string list" where
  "split_on sep [] = [[]]"
| "split_on sep (c # cs) =
     (if c = sep then [] # split_on sep cs
      else (case split_on sep cs of [] \<Rightarrow> [[c]] | w # ws \<Rightarrow> (c # w) # ws))"

fun join_with :: "string \<Rightarrow> string list \<Rightarrow> string" where
  "join_with sep [] = []"
| "join_with sep [w] = w"
| "join_with sep (w # ws) = w @ sep @ join_with sep ws"

text \<open>
  A \<^verbatim>\<open>pathlib\<close> path is the list of the \<^verbatim>\<open>/\<close>-separated parts of its text:
  \<^verbatim>\<open>Path("apps/demo")\<close> is \<open>[''apps'', ''demo'']\<close>, the empty path \<^verbatim>\<open>Path(".")\<close> is
  \<open>[''.'']\<close>, an absolute path starts with an empty part. Paths are equal when their
  parts are, and \<^verbatim>\<open>sorted\<close> compares them part by part, which is the lexicographic
  order of lists over the order of strings.
\<close>

type_synonym path = "string list"

definition path_str :: "path \<Rightarrow> string" where
  "path_str p = join_with ''/'' p"

text \<open>\<^verbatim>\<open>path.name\<close>: the last part, empty for the empty path and for the root.\<close>

definition path_name :: "path \<Rightarrow> string" where
  "path_name p = (if p = [] \<or> p = [''.''] then [] else last p)"

text \<open>
  \<^verbatim>\<open>Path(text)\<close>: empty parts and \<^verbatim>\<open>.\<close> parts are dropped; a text that starts with
  a slash is absolute (with exactly two slashes the root is \<^verbatim>\<open>//\<close>).
\<close>

definition is_absolute :: "string \<Rightarrow> bool" where
  "is_absolute text = (text \<noteq> [] \<and> hd text = CHR ''/'')"

definition path_of_string :: "string \<Rightarrow> path" where
  "path_of_string text =
     (let names = filter (\<lambda>w. w \<noteq> [] \<and> w \<noteq> ''.'') (split_on CHR ''/'' text);
          slashes = length (takeWhile (\<lambda>c. c = CHR ''/'') text);
          root = (if slashes = 0 then [] else if slashes = 2 then [[], []] else [[]])
      in if root = [] then (if names = [] then [''.''] else names)
         else if names = [] then root @ [[]]
         else root @ names)"

text \<open>
  What the generators see of the directory that the resolver returned:
  \<^item> \<open>glob_dirs pattern\<close>: the directories among \<^verbatim>\<open>base_path.glob(pattern)\<close>, each
    relative to the base; \<^verbatim>\<open>glob\<close> raises on a pattern it does not accept;
  \<^item> \<open>abs_is_dir pattern\<close>: \<^verbatim>\<open>Path(pattern).is_dir()\<close> for an absolute pattern;
  \<^item> \<open>rel_is_dir pattern\<close>: \<^verbatim>\<open>(base_path / pattern).is_dir()\<close>;
  \<^item> \<open>glob_files pattern\<close>: the files among \<^verbatim>\<open>base_path.glob(pattern)\<close>, relative;
  \<^item> \<open>read_text file\<close>: the text of the file, or the exception of \<^verbatim>\<open>read_text\<close>.
\<close>

datatype read_result = FileText string | OSError | BadEncoding

record repo_dir =
  glob_dirs :: "string \<Rightarrow> py_error + path list"
  abs_is_dir :: "string \<Rightarrow> bool"
  rel_is_dir :: "string \<Rightarrow> bool"
  glob_files :: "string \<Rightarrow> py_error + path list"
  read_text :: "path \<Rightarrow> read_result"

section \<open>Git-Directory Generator (appset.py 147-204 and 356-395)\<close>

text \<open>
  \<^verbatim>\<open>re.search(r"/?\*$", pattern)\<close>: the pattern ends with a star; \<^verbatim>\<open>$\<close> also matches
  before a newline that ends the pattern.
\<close>

definition has_trailing_glob :: "string \<Rightarrow> bool" where
  "has_trailing_glob pattern =
     (pattern \<noteq> [] \<and>
      (last pattern = CHR ''*''
       \<or> (last pattern = CHR 0x0A \<and> butlast pattern \<noteq> [] \<and> last (butlast pattern) = CHR ''*'')))"

text \<open>\<^verbatim>\<open>any(c in pattern for c in "*?[]")\<close>\<close>

definition has_glob :: "string \<Rightarrow> bool" where
  "has_glob pattern = (\<exists>c \<in> set ''*?[]''. c \<in> set pattern)"

definition find_matching_directories :: "repo_dir \<Rightarrow> string \<Rightarrow> py_error + path set" where
  "find_matching_directories repo pattern =
     (if has_trailing_glob pattern then
        (case glob_dirs repo pattern of Inl err \<Rightarrow> Inl err | Inr ds \<Rightarrow> Inr (set ds))
      else if is_absolute pattern then
        Inr (if abs_is_dir repo pattern then {path_of_string pattern} else {})
      else if has_glob pattern then
        (case glob_dirs repo pattern of Inl err \<Rightarrow> Inl err | Inr ds \<Rightarrow> Inr (set ds))
      else
        Inr (if rel_is_dir repo pattern then {path_of_string pattern} else {}))"

text \<open>
  The first loop of \<^verbatim>\<open>_expand_git_directory_generator\<close>: the patterns of the entries,
  those with a true \<^verbatim>\<open>exclude\<close> apart from the others, each list in the order of the
  entries.
\<close>

fun partition_directories :: "pyval list \<Rightarrow> py_error + (pyval list \<times> pyval list)" where
  "partition_directories [] = Inr ([], [])"
| "partition_directories (e # es) =
     (case as_dict e of
        Inl err \<Rightarrow> Inl err
      | Inr dir_entry \<Rightarrow>
         (case partition_directories es of
            Inl err \<Rightarrow> Inl err
          | Inr (include_patterns, exclude_patterns) \<Rightarrow>
             (let path_pattern = dict_get_default dir_entry ''path'' (PStr '''')
              in if truthy (dict_get_default dir_entry ''exclude'' (PBool False))
                 then Inr (include_patterns, path_pattern # exclude_patterns)
                 else Inr (path_pattern # include_patterns, exclude_patterns))))"

text \<open>A pattern that is no string makes \<^verbatim>\<open>re.search\<close> raise \<^verbatim>\<open>TypeError\<close>.\<close>

fun as_str :: "pyval \<Rightarrow> py_error + string" where
  "as_str (PStr s) = Inr s"
| "as_str v = Inl TypeError"

text \<open>The second loop, \<^verbatim>\<open>matched_dirs.update(matched)\<close>, and the third, \<^verbatim>\<open>matched_dirs -= excluded\<close>.\<close>

fun add_included :: "repo_dir \<Rightarrow> pyval list \<Rightarrow> path set \<Rightarrow> py_error + path set" where
  "add_included repo [] matched_dirs = Inr matched_dirs"
| "add_included repo (p # patterns) matched_dirs =
     (case as_str p of
        Inl err \<Rightarrow> Inl err
      | Inr pattern \<Rightarrow>
         (case find_matching_directories repo pattern of
            Inl err \<Rightarrow> Inl err
          | Inr matched \<Rightarrow> add_included repo patterns (matched_dirs \<union> matched)))"

fun remove_excluded :: "repo_dir \<Rightarrow> pyval list \<Rightarrow> path set \<Rightarrow> py_error + path set" where
  "remove_excluded repo [] matched_dirs = Inr matched_dirs"
| "remove_excluded repo (p # patterns) matched_dirs =
     (case as_str p of
        Inl err \<Rightarrow> Inl err
      | Inr pattern \<Rightarrow>
         (case find_matching_directories repo pattern of
            Inl err \<Rightarrow> Inl err
          | Inr excluded \<Rightarrow> remove_excluded repo patterns (matched_dirs - excluded)))"

text \<open>\<^verbatim>\<open>prefix = f"{path_param_prefix}." if path_param_prefix else ""\<close>\<close>

definition key_prefix :: "(pyval \<Rightarrow> string) \<Rightarrow> pyval \<Rightarrow> string" where
  "key_prefix fmt path_param_prefix =
     (if truthy path_param_prefix then py_str fmt path_param_prefix @ ''.'' else '''')"

text \<open>The loop over \<^verbatim>\<open>enumerate(segments)\<close>.\<close>

fun add_segments :: "string \<Rightarrow> pydict \<Rightarrow> nat \<Rightarrow> string list \<Rightarrow> pydict" where
  "add_segments pfx p i [] = p"
| "add_segments pfx p i (segment # segments) =
     add_segments pfx
       (dict_setitem
          (dict_setitem p (pfx @ ''path.segments.'' @ str_nat i) (PStr segment))
          (''path.segments.'' @ str_nat i) (PStr segment))
       (Suc i) segments"

text \<open>
  The parameter set of one directory: the dictionary display stores its eight items
  from left to right, then the segments are added.
\<close>

definition directory_params :: "string \<Rightarrow> path \<Rightarrow> pydict" where
  "directory_params pfx dir_path =
     (let path_string = path_str dir_path;
          basename = path_name dir_path;
          basename_normalized = normalize_name basename;
          segments = split_on CHR ''/'' path_string;
          p = dict_update []
                [(pfx @ ''path'', PStr path_string),
                 (pfx @ ''path.path'', PStr path_string),
                 (pfx @ ''path.basename'', PStr basename),
                 (pfx @ ''path.basenameNormalized'', PStr basename_normalized),
                 (''path'', PStr path_string),
                 (''path.path'', PStr path_string),
                 (''path.basename'', PStr basename),
                 (''path.basenameNormalized'', PStr basename_normalized)]
      in add_segments pfx p 0 segments)"

definition expand_git_directory_generator ::
  "(pyval \<Rightarrow> string) \<Rightarrow> repo_dir \<Rightarrow> pydict \<Rightarrow> pyval \<Rightarrow> py_error + pydict list" where
  "expand_git_directory_generator fmt repo config path_param_prefix =
     (case py_iter (dict_get_default config ''directories'' (PList [])) of
        Inl err \<Rightarrow> Inl err
      | Inr directories \<Rightarrow>
         (case partition_directories directories of
            Inl err \<Rightarrow> Inl err
          | Inr (include_patterns, exclude_patterns) \<Rightarrow>
             (case add_included repo include_patterns {} of
                Inl err \<Rightarrow> Inl err
              | Inr included \<Rightarrow>
                 (case remove_excluded repo exclude_patterns included of
                    Inl err \<Rightarrow> Inl err
                  | Inr matched_dirs \<Rightarrow>
                      Inr (map (directory_params (key_prefix fmt path_param_prefix))
                             (sorted_list_of_set matched_dirs))))))"

subsection \<open>The directory generator as the specification words it\<close>

text \<open>The pattern of a directory entry and its \<^verbatim>\<open>exclude\<close> flag.\<close>

fun entry_pattern :: "pyval \<Rightarrow> pyval" where
  "entry_pattern (PDict dir_entry) = dict_get_default dir_entry ''path'' (PStr '''')"
| "entry_pattern v = PNone"

fun entry_excluded :: "pyval \<Rightarrow> bool" where
  "entry_excluded (PDict dir_entry) = truthy (dict_get_default dir_entry ''exclude'' (PBool False))"
| "entry_excluded v = False"

text \<open>The directories that one pattern matches.\<close>

definition matches_of :: "repo_dir \<Rightarrow> pyval \<Rightarrow> path set" where
  "matches_of repo p =
     (case p of
        PStr pattern \<Rightarrow>
          (case find_matching_directories repo pattern of Inl err \<Rightarrow> {} | Inr m \<Rightarrow> m)
      | _ \<Rightarrow> {})"

text \<open>
  The surviving paths: the union of the matches of all include patterns minus the union
  of the matches of all exclude patterns.
\<close>

definition spec_surviving_paths :: "repo_dir \<Rightarrow> pyval list \<Rightarrow> path set" where
  "spec_surviving_paths repo entries =
     (\<Union>e \<in> set (filter (\<lambda>e. \<not> entry_excluded e) entries). matches_of repo (entry_pattern e))
     - (\<Union>e \<in> set (filter entry_excluded entries). matches_of repo (entry_pattern e))"

text \<open>
  The key names of one family: the four fixed ones and one \<^verbatim>\<open>path.segments.<i>\<close> per
  \<^verbatim>\<open>/\<close>-delimited component of the path's text.
\<close>

definition path_key_names :: "path \<Rightarrow> string list" where
  "path_key_names dir_path =
     [''path'', ''path.path'', ''path.basename'', ''path.basenameNormalized'']
     @ map (\<lambda>i. ''path.segments.'' @ str_nat i)
         [0..<length (split_on CHR ''/'' (path_str dir_path))]"

text \<open>
  A parameter set carries the keys of a path: every key name with the prefix and
  without it, and the text of the path under \<^verbatim>\<open>path\<close>.
\<close>

definition carries_path_keys :: "string \<Rightarrow> path \<Rightarrow> pydict \<Rightarrow> bool" where
  "carries_path_keys pfx dir_path p =
     ((\<forall>k \<in> set (path_key_names dir_path). dict_contains p (pfx @ k) \<and> dict_contains p k)
      \<and> dict_get p ''path'' = Some (PStr (path_str dir_path)))"

text \<open>The configured entries, as the generator iterates over them.\<close>

definition configured_directories :: "pydict \<Rightarrow> pyval list" where
  "configured_directories config =
     (case py_iter (dict_get_default config ''directories'' (PList [])) of
        Inl err \<Rightarrow> [] | Inr entries \<Rightarrow> entries)"

subsection \<open>An example repository\<close>

text \<open>
  A checkout with the directories \<^verbatim>\<open>apps/web\<close>, \<^verbatim>\<open>apps/api\<close> and \<^verbatim>\<open>apps/old\<close>, and
  with the files \<^verbatim>\<open>config/dev.json\<close> (a record), \<^verbatim>\<open>config/list.json\<close> (a JSON list)
  and \<^verbatim>\<open>config/broken.json\<close> (no document at all).
\<close>

fun example_glob_dirs :: "string \<Rightarrow> py_error + path list" where
  "example_glob_dirs pattern =
     (if pattern = ''apps/*'' then Inr [[''apps'', ''web''], [''apps'', ''api''], [''apps'', ''old'']]
      else if pattern = ''*'' then Inr [[''apps''], [''config'']]
      else Inr [])"

fun example_is_dir :: "string \<Rightarrow> bool" where
  "example_is_dir pattern =
     (pattern \<in> {''apps'', ''config'', ''apps/web'', ''apps/api'', ''apps/old''})"

fun example_glob_files :: "string \<Rightarrow> py_error + path list" where
  "example_glob_files pattern =
     (if pattern = ''config/*.json''
      then Inr [[''config'', ''dev.json''], [''config'', ''list.json''], [''config'', ''broken.json'']]
      else if pattern = ''config/list.json'' then Inr [[''config'', ''list.json'']]
      else Inr [])"

fun example_read_text :: "path \<Rightarrow> read_result" where
  "example_read_text file =
     (if file = [''config'', ''dev.json''] then FileText ''env: dev''
      else if file = [''config'', ''list.json''] then FileText ''[1, 2]''
      else if file = [''config'', ''broken.json''] then FileText ''{''
      else OSError)"

definition example_repo :: repo_dir where
  "example_repo =
     \<lparr>glob_dirs = example_glob_dirs, abs_is_dir = (\<lambda>pattern. False),
      rel_is_dir = example_is_dir, glob_files = example_glob_files,
      read_text = example_read_text\<rparr>"

definition example_directories_config :: pydict where
  "example_directories_config =
     [(''repoURL'', PStr ''https://example.com/repo.git''),
      (''directories'', PList
         [PDict [(''path'', PStr ''apps/*'')],
          PDict [(''path'', PStr ''apps/old''), (''exclude'', PBool True)]])]"

text \<open>
  A second checkout, with the directories \<^verbatim>\<open>a\<close>, \<^verbatim>\<open>a/b\<close> and \<^verbatim>\<open>a-b\<close>, and a
  configuration whose two patterns match all three.
\<close>

fun nested_glob_dirs :: "string \<Rightarrow> py_error + path list" where
  "nested_glob_dirs pattern =
     (if pattern = ''*'' then Inr [[''a''], [''a-b'']]
      else if pattern = ''a/*'' then Inr [[''a'', ''b'']]
      else Inr [])"

fun nested_is_dir :: "string \<Rightarrow> bool" where
  "nested_is_dir pattern = (pattern \<in> {''a'', ''a/b'', ''a-b''})"

fun nested_glob_files :: "string \<Rightarrow> py_error + path list" where
  "nested_glob_files pattern = Inr []"

fun nested_read_text :: "path \<Rightarrow> read_result" where
  "nested_read_text file = OSError"

fun nested_abs_is_dir :: "string \<Rightarrow> bool" where
  "nested_abs_is_dir pattern = False"

definition nested_repo :: repo_dir where
  "nested_repo =
     \<lparr>glob_dirs = nested_glob_dirs, abs_is_dir = nested_abs_is_dir,
      rel_is_dir = nested_is_dir, glob_files = nested_glob_files,
      read_text = nested_read_text\<rparr>"

definition nested_directories_config :: pydict where
  "nested_directories_config =
     [(''directories'', PList
         [PDict [(''path'', PStr ''*'')], PDict [(''path'', PStr ''a/*'')]])]"

text \<open>
  The texts that a sequence of parameter sets has under the key \<^verbatim>\<open>path\<close>, in the
  order of the sequence.
\<close>

fun emitted_path_texts :: "pydict list \<Rightarrow> string list" where
  "emitted_path_texts [] = []"
| "emitted_path_texts (p # params) =
     (case dict_get p ''path'' of
        Some (PStr text) \<Rightarrow> text # emitted_path_texts params
      | _ \<Rightarrow> emitted_path_texts params)"

section \<open>Diagnostics and the environment\<close>

text \<open>
  The calls of \<^verbatim>\<open>logger.warning\<close>, in the order in which they are made: a generator
  returns the diagnostics it logged together with its result, and an exception leaves
  the diagnostics logged before it in place.
\<close>

datatype diagnostic =
    UnsupportedGeneratorType "string list"
  | ClustersNotFullySupported
  | MatrixRequiresTwoChildren
  | FailedToParseFile path

type_synonym 'a outcome = "diagnostic list \<times> (py_error + 'a)"

text \<open>
  The collaborators of the expansion: the repository resolver
  (\<^verbatim>\<open>resolver.resolve(repo_url, revision)\<close>, which may raise) and the two document
  loaders, each of which returns a value or raises its parse error.
\<close>

datatype parse_result = Parsed pyval | ParseError

record environment =
  resolve :: "pyval \<Rightarrow> pyval \<Rightarrow> py_error + repo_dir"
  yaml_safe_load :: "string \<Rightarrow> parse_result"
  json_loads :: "string \<Rightarrow> parse_result"

text \<open>\<^verbatim>\<open>a or b\<close> and \<^verbatim>\<open>len(x)\<close>.\<close>

definition py_or :: "pyval \<Rightarrow> pyval \<Rightarrow> pyval" where
  "py_or a b = (if truthy a then a else b)"

fun py_len :: "pyval \<Rightarrow> py_error + nat" where
  "py_len (PList xs) = Inr (length xs)"
| "py_len (PStr s) = Inr (length s)"
| "py_len (PDict d) = Inr (length d)"
| "py_len v = Inl TypeError"

section \<open>Flattener and List Generator (appset.py 114-125 and 407-418)\<close>

text \<open>
  \<^verbatim>\<open>_flatten_dict\<close> collects the list \<^verbatim>\<open>items\<close> and returns \<^verbatim>\<open>dict(items)\<close>; the
  recursive call contributes the items of the dictionary it returns.
\<close>

fun flatten_dict :: "pydict \<Rightarrow> string \<Rightarrow> pydict"
  and flatten_items :: "pydict \<Rightarrow> string \<Rightarrow> (string \<times> pyval) list"
where
  "flatten_dict d parent_key = dict_update [] (flatten_items d parent_key)"
| "flatten_items [] parent_key = []"
| "flatten_items ((k, v) # d) parent_key =
     (let new_key = (if parent_key \<noteq> [] then parent_key @ ''.'' @ k else k)
      in (case v of
            PDict sub \<Rightarrow> flatten_dict sub new_key
          | _ \<Rightarrow> [(new_key, v)])
         @ flatten_items d parent_key)"

fun list_elements_loop :: "pyval list \<Rightarrow> pydict list" where
  "list_elements_loop [] = []"
| "list_elements_loop (PDict element # elements) =
     flatten_dict element [] # list_elements_loop elements"
| "list_elements_loop (element # elements) = list_elements_loop elements"

definition expand_list_generator :: "pyval \<Rightarrow> py_error + pydict list" where
  "expand_list_generator config =
     (case as_dict config of
        Inl err \<Rightarrow> Inl err
      | Inr cfg \<Rightarrow>
         (case py_iter (dict_get_default cfg ''elements'' (PList [])) of
            Inl err \<Rightarrow> Inl err
          | Inr elements \<Rightarrow> Inr (list_elements_loop elements)))"

section \<open>Cluster Stub Generator (appset.py 266-283)\<close>

definition expand_clusters_generator :: "pyval \<Rightarrow> pydict list outcome" where
  "expand_clusters_generator config =
     ([ClustersNotFullySupported],
      Inr [[(''name'', PStr ''in-cluster''), (''server'', PStr ''https://kubernetes.default.svc'')]])"

section \<open>Git-File Generator (appset.py 207-263 and 398-404)\<close>

text \<open>\<^verbatim>\<open>path.parent\<close> of a relative path.\<close>

definition path_parent :: "path \<Rightarrow> path" where
  "path_parent p = (if length p \<le> 1 then [''.''] else butlast p)"

text \<open>The dictionary display that \<^verbatim>\<open>flat.update\<close> receives.\<close>

definition file_path_params :: "string \<Rightarrow> path \<Rightarrow> pydict" where
  "file_path_params pfx rel_path =
     (let path_string = path_str rel_path;
          parent = path_parent rel_path
      in dict_update []
           [(pfx @ ''path'', PStr path_string),
            (pfx @ ''path.path'', PStr (path_str parent)),
            (pfx @ ''path.basename'', PStr (path_name parent)),
            (pfx @ ''path.basenameNormalized'', PStr (normalize_name (path_name parent))),
            (pfx @ ''path.filename'', PStr (path_name rel_path)),
            (pfx @ ''path.filenameNormalized'', PStr (normalize_name (path_name rel_path))),
            (''path'', PStr path_string),
            (''path.path'', PStr (path_str parent)),
            (''path.basename'', PStr (path_name parent)),
            (''path.basenameNormalized'', PStr (normalize_name (path_name parent))),
            (''path.filename'', PStr (path_name rel_path)),
            (''path.filenameNormalized'', PStr (normalize_name (path_name rel_path)))])"

text \<open>
  The body of the loop over the matched files. The \<^verbatim>\<open>try\<close> block reads the file and
  loads it as YAML, and as JSON when the YAML value is no dictionary; its
  \<^verbatim>\<open>except\<close> clause catches \<^verbatim>\<open>YAMLError\<close>, \<^verbatim>\<open>JSONDecodeError\<close> and \<^verbatim>\<open>OSError\<close>,
  logs and goes on. The result is the contribution of the file: no parameter set or
  one.
\<close>

definition file_contribution ::
  "environment \<Rightarrow> repo_dir \<Rightarrow> string \<Rightarrow> path \<Rightarrow> pydict list outcome" where
  "file_contribution env repo pfx file_path =
     (case read_text repo file_path of
        OSError \<Rightarrow> ([FailedToParseFile file_path], Inr [])
      | BadEncoding \<Rightarrow> ([], Inl UnicodeDecodeError)
      | FileText content \<Rightarrow>
         (case yaml_safe_load env content of
            ParseError \<Rightarrow> ([FailedToParseFile file_path], Inr [])
          | Parsed (PDict data) \<Rightarrow>
              ([], Inr [dict_update (flatten_dict data []) (file_path_params pfx file_path)])
          | Parsed other \<Rightarrow>
             (case json_loads env content of
                ParseError \<Rightarrow> ([FailedToParseFile file_path], Inr [])
              | Parsed (PDict data) \<Rightarrow>
                  ([], Inr [dict_update (flatten_dict data []) (file_path_params pfx file_path)])
              | Parsed other \<Rightarrow> ([], Inr []))))"

fun matched_files_loop ::
  "environment \<Rightarrow> repo_dir \<Rightarrow> string \<Rightarrow> path list \<Rightarrow> pydict list outcome" where
  "matched_files_loop env repo pfx [] = ([], Inr [])"
| "matched_files_loop env repo pfx (file_path # files) =
     (case file_contribution env repo pfx file_path of
        (diags, Inl err) \<Rightarrow> (diags, Inl err)
      | (diags, Inr params) \<Rightarrow>
         (case matched_files_loop env repo pfx files of
            (diags', Inl err) \<Rightarrow> (diags @ diags', Inl err)
          | (diags', Inr rest) \<Rightarrow> (diags @ diags', Inr (params @ rest))))"

text \<open>
  The loop over the file entries: an entry with a true \<^verbatim>\<open>exclude\<close> is passed over, the
  files that the pattern of any other entry matches are visited in sorted order.
\<close>

fun file_entries_loop ::
  "environment \<Rightarrow> repo_dir \<Rightarrow> string \<Rightarrow> pyval list \<Rightarrow> pydict list outcome" where
  "file_entries_loop env repo pfx [] = ([], Inr [])"
| "file_entries_loop env repo pfx (e # entries) =
     (case as_dict e of
        Inl err \<Rightarrow> ([], Inl err)
      | Inr file_entry \<Rightarrow>
          if truthy (dict_get_default file_entry ''exclude'' (PBool False))
          then file_entries_loop env repo pfx entries
          else
            (case as_str (dict_get_default file_entry ''path'' (PStr '''')) of
               Inl err \<Rightarrow> ([], Inl err)
             | Inr path_pattern \<Rightarrow>
                (case glob_files repo path_pattern of
                   Inl err \<Rightarrow> ([], Inl err)
                 | Inr matched_files \<Rightarrow>
                    (case matched_files_loop env repo pfx (sort matched_files) of
                       (diags, Inl err) \<Rightarrow> (diags, Inl err)
                     | (diags, Inr params) \<Rightarrow>
                        (case file_entries_loop env repo pfx entries of
                           (diags', Inl err) \<Rightarrow> (diags @ diags', Inl err)
                         | (diags', Inr rest) \<Rightarrow> (diags @ diags', Inr (params @ rest)))))))"

definition expand_git_file_generator ::
  "(pyval \<Rightarrow> string) \<Rightarrow> environment \<Rightarrow> repo_dir \<Rightarrow> pydict \<Rightarrow> pyval \<Rightarrow> pydict list outcome" where
  "expand_git_file_generator fmt env repo config path_param_prefix =
     (case py_iter (dict_get_default config ''files'' (PList [])) of
        Inl err \<Rightarrow> ([], Inl err)
      | Inr files_config \<Rightarrow>
          file_entries_loop env repo (key_prefix fmt path_param_prefix) files_config)"

section \<open>Git Generator (appset.py 128-144)\<close>

definition expand_git_generator ::
  "(pyval \<Rightarrow> string) \<Rightarrow> environment \<Rightarrow> pyval \<Rightarrow> pydict list outcome" where
  "expand_git_generator fmt env config =
     (case as_dict config of
        Inl err \<Rightarrow> ([], Inl err)
      | Inr cfg \<Rightarrow>
         (let path_param_prefix = dict_get_default cfg ''pathParamPrefix'' (PStr '''');
              repo_url = dict_get_default cfg ''repoURL'' (PStr '''');
              revision = py_or (dict_get_default cfg ''revision'' (PStr ''''))
                               (dict_get_default cfg ''targetRevision'' (PStr ''''))
          in case resolve env repo_url (py_or revision PNone) of
               Inl err \<Rightarrow> ([], Inl err)
             | Inr base_path \<Rightarrow>
                 if dict_contains cfg ''directories''
                 then ([], expand_git_directory_generator fmt base_path cfg path_param_prefix)
                 else if dict_contains cfg ''files''
                 then expand_git_file_generator fmt env base_path cfg path_param_prefix
                 else ([], Inr [])))"

section \<open>Matrix and Merge combination (appset.py 303-311 and 335-353)\<close>

text \<open>
  \<^verbatim>\<open>itertools.product(*child_params)\<close>: the tuples in the order in which the rightmost
  position moves fastest.
\<close>

fun itertools_product :: "'a list list \<Rightarrow> 'a list list" where
  "itertools_product [] = [[]]"
| "itertools_product (xs # xss) =
     concat (map (\<lambda>x. map (\<lambda>combo. x # combo) (itertools_product xss)) xs)"

text \<open>\<^verbatim>\<open>merged = {}\<close>, then \<^verbatim>\<open>merged.update(params)\<close> for each member of the tuple.\<close>

fun merge_combo_loop :: "pydict \<Rightarrow> pydict list \<Rightarrow> pydict" where
  "merge_combo_loop merged [] = merged"
| "merge_combo_loop merged (params # combo) = merge_combo_loop (dict_update merged params) combo"

definition matrix_combinations :: "pydict list list \<Rightarrow> pydict list" where
  "matrix_combinations child_params =
     map (merge_combo_loop []) (itertools_product child_params)"

text \<open>\<^verbatim>\<open>"|".join(str(params.get(k, "")) for k in merge_keys)\<close>\<close>

fun merge_key_texts :: "(pyval \<Rightarrow> string) \<Rightarrow> pydict \<Rightarrow> pyval list \<Rightarrow> py_error + string list" where
  "merge_key_texts fmt params [] = Inr []"
| "merge_key_texts fmt params (k # ks) =
     (case params_get params k of
        Inl err \<Rightarrow> Inl err
      | Inr v \<Rightarrow>
         (case merge_key_texts fmt params ks of
            Inl err \<Rightarrow> Inl err
          | Inr texts \<Rightarrow> Inr (py_str fmt v # texts)))"

definition make_merge_key :: "(pyval \<Rightarrow> string) \<Rightarrow> pydict \<Rightarrow> pyval \<Rightarrow> py_error + string" where
  "make_merge_key fmt params merge_keys =
     (case py_iter merge_keys of
        Inl err \<Rightarrow> Inl err
      | Inr ks \<Rightarrow>
         (case merge_key_texts fmt params ks of
            Inl err \<Rightarrow> Inl err
          | Inr texts \<Rightarrow> Inr (join_with ''|'' texts)))"

text \<open>The seeding loop: \<^verbatim>\<open>result_map[key] = dict(params)\<close>.\<close>

fun seed_loop ::
  "(pyval \<Rightarrow> string) \<Rightarrow> pyval \<Rightarrow> pydict list \<Rightarrow> (string \<times> pydict) list
     \<Rightarrow> py_error + (string \<times> pydict) list" where
  "seed_loop fmt merge_keys [] result_map = Inr result_map"
| "seed_loop fmt merge_keys (params # rest) result_map =
     (case make_merge_key fmt params merge_keys of
        Inl err \<Rightarrow> Inl err
      | Inr key \<Rightarrow> seed_loop fmt merge_keys rest (dict_setitem result_map key params))"

text \<open>The inner merging loop: \<^verbatim>\<open>if key in result_map: result_map[key].update(params)\<close>.\<close>

fun overlay_loop ::
  "(pyval \<Rightarrow> string) \<Rightarrow> pyval \<Rightarrow> pydict list \<Rightarrow> (string \<times> pydict) list
     \<Rightarrow> py_error + (string \<times> pydict) list" where
  "overlay_loop fmt merge_keys [] result_map = Inr result_map"
| "overlay_loop fmt merge_keys (params # rest) result_map =
     (case make_merge_key fmt params merge_keys of
        Inl err \<Rightarrow> Inl err
      | Inr key \<Rightarrow>
         (case map_of result_map key of
            None \<Rightarrow> overlay_loop fmt merge_keys rest result_map
          | Some existing \<Rightarrow>
              overlay_loop fmt merge_keys rest
                (dict_setitem result_map key (dict_update existing params))))"

text \<open>The outer merging loop, over \<^verbatim>\<open>all_expanded[1:]\<close>.\<close>

fun overlay_lists ::
  "(pyval \<Rightarrow> string) \<Rightarrow> pyval \<Rightarrow> pydict list list \<Rightarrow> (string \<times> pydict) list
     \<Rightarrow> py_error + (string \<times> pydict) list" where
  "overlay_lists fmt merge_keys [] result_map = Inr result_map"
| "overlay_lists fmt merge_keys (expanded_list # rest) result_map =
     (case overlay_loop fmt merge_keys expanded_list result_map of
        Inl err \<Rightarrow> Inl err
      | Inr result_map' \<Rightarrow> overlay_lists fmt merge_keys rest result_map')"

text \<open>Lines 332-348 of \<^verbatim>\<open>_expand_merge_generator\<close>, from the expanded children on.\<close>

fun merge_children ::
  "(pyval \<Rightarrow> string) \<Rightarrow> pyval \<Rightarrow> pydict list list \<Rightarrow> py_error + pydict list" where
  "merge_children fmt merge_keys [] = Inr []"
| "merge_children fmt merge_keys (first_expanded # others) =
     (case seed_loop fmt merge_keys first_expanded [] of
        Inl err \<Rightarrow> Inl err
      | Inr seeded \<Rightarrow>
         (case overlay_lists fmt merge_keys others seeded of
            Inl err \<Rightarrow> Inl err
          | Inr result_map \<Rightarrow> Inr (map snd result_map)))"

section \<open>Generator Dispatcher, Matrix and Merge Generators (appset.py 64-111 and 286-348)\<close>

text \<open>
  Lines 101-105 of \<^verbatim>\<open>_expand_generator\<close>: a non-empty dictionary of extra values is
  stored into every parameter set under \<^verbatim>\<open>values.<key>\<close>.
\<close>

fun store_values :: "pydict \<Rightarrow> pydict \<Rightarrow> pydict" where
  "store_values p [] = p"
| "store_values p ((k, v) # extra_values) =
     store_values (dict_setitem p (''values.'' @ k) v) extra_values"

fun add_extra_values :: "pyval \<Rightarrow> pydict list \<Rightarrow> pydict list" where
  "add_extra_values (PDict extra_values) params =
     (if extra_values \<noteq> [] then map (\<lambda>p. store_values p extra_values) params else params)"
| "add_extra_values extra_values params = params"

text \<open>
  \<^verbatim>\<open>_expand_generator\<close> routes on the first of the keys \<^verbatim>\<open>list\<close>, \<^verbatim>\<open>git\<close>,
  \<^verbatim>\<open>clusters\<close>, \<^verbatim>\<open>matrix\<close>, \<^verbatim>\<open>merge\<close> that the configuration has, and returns at
  once when it has none. \<open>expand_children\<close> is the loop
  \<^verbatim>\<open>for child in child_generators: expanded = _expand_generator(child, ...)\<close> of the two
  combinators. The flag \<^verbatim>\<open>go_template\<close> is passed along and never read.
\<close>

function expand_generator ::
    "(pyval \<Rightarrow> string) \<Rightarrow> environment \<Rightarrow> pydict \<Rightarrow> pydict list outcome"
  and expand_matrix_generator ::
    "(pyval \<Rightarrow> string) \<Rightarrow> environment \<Rightarrow> pyval \<Rightarrow> pydict list outcome"
  and expand_merge_generator ::
    "(pyval \<Rightarrow> string) \<Rightarrow> environment \<Rightarrow> pyval \<Rightarrow> pydict list outcome"
  and expand_children ::
    "(pyval \<Rightarrow> string) \<Rightarrow> environment \<Rightarrow> pyval list \<Rightarrow> pydict list list outcome"
where
  "expand_generator fmt env generator =
     (case (case dict_get generator ''list'' of
              Some config \<Rightarrow> Some ([], expand_list_generator config)
            | None \<Rightarrow>
           (case dict_get generator ''git'' of
              Some config \<Rightarrow> Some (expand_git_generator fmt env config)
            | None \<Rightarrow>
           (case dict_get generator ''clusters'' of
              Some config \<Rightarrow> Some (expand_clusters_generator config)
            | None \<Rightarrow>
           (case dict_get generator ''matrix'' of
              Some config \<Rightarrow> Some (expand_matrix_generator fmt env config)
            | None \<Rightarrow>
           (case dict_get generator ''merge'' of
              Some config \<Rightarrow> Some (expand_merge_generator fmt env config)
            | None \<Rightarrow> None))))) of
        None \<Rightarrow> ([UnsupportedGeneratorType (map fst generator)], Inr [])
      | Some (diags, Inl err) \<Rightarrow> (diags, Inl err)
      | Some (diags, Inr params) \<Rightarrow>
          (diags,
           filter_by_selector fmt generator
             (add_extra_values (dict_get_default generator ''values'' (PDict [])) params)))"
| "expand_matrix_generator fmt env config =
     (case as_dict config of
        Inl err \<Rightarrow> ([], Inl err)
      | Inr cfg \<Rightarrow>
         (case py_len (dict_get_default cfg ''generators'' (PList [])) of
            Inl err \<Rightarrow> ([], Inl err)
          | Inr n \<Rightarrow>
              if n < 2 then ([MatrixRequiresTwoChildren], Inr [])
              else
               (case py_iter (dict_get_default cfg ''generators'' (PList [])) of
                  Inl err \<Rightarrow> ([], Inl err)
                | Inr child_generators \<Rightarrow>
                   (case expand_children fmt env child_generators of
                      (diags, Inl err) \<Rightarrow> (diags, Inl err)
                    | (diags, Inr child_params) \<Rightarrow>
                        (diags, Inr (matrix_combinations child_params))))))"
| "expand_merge_generator fmt env config =
     (case as_dict config of
        Inl err \<Rightarrow> ([], Inl err)
      | Inr cfg \<Rightarrow>
          if \<not> truthy (dict_get_default cfg ''generators'' (PList [])) then ([], Inr [])
          else
           (case py_iter (dict_get_default cfg ''generators'' (PList [])) of
              Inl err \<Rightarrow> ([], Inl err)
            | Inr child_generators \<Rightarrow>
               (case expand_children fmt env child_generators of
                  (diags, Inl err) \<Rightarrow> (diags, Inl err)
                | (diags, Inr all_expanded) \<Rightarrow>
                    (diags,
                     merge_children fmt (dict_get_default cfg ''mergeKeys'' (PList []))
                       all_expanded))))"
| "expand_children fmt env [] = ([], Inr [])"
| "expand_children fmt env (child # child_generators) =
     (case as_dict child of
        Inl err \<Rightarrow> ([], Inl err)
      | Inr generator \<Rightarrow>
         (case expand_generator fmt env generator of
            (diags, Inl err) \<Rightarrow> (diags, Inl err)
          | (diags, Inr expanded) \<Rightarrow>
             (case expand_children fmt env child_generators of
                (diags', Inl err) \<Rightarrow> (diags @ diags', Inl err)
              | (diags', Inr rest) \<Rightarrow> (diags @ diags', Inr (expanded # rest)))))"
  by pat_completeness auto

termination
proof -
  have found: "size v < Suc (size_list (size_prod (\<lambda>x. 0) size) d)"
    if "map_of d k = Some v" for d :: pydict and k v
    using that by (induction d) (auto split: if_splits)
  have elements: "sum_list (map size cs) \<le> size v" if "py_iter v = Inr cs" for v cs
  proof (cases v)
    case (PList xs)
    have "sum_list (map size xs) \<le> size_list size xs" by (induction xs) simp_all
    then show ?thesis using that PList by auto
  next
    case (PStr s)
    then have "cs = map (\<lambda>c. PStr [c]) s" using that by simp
    then show ?thesis by (simp add: comp_def)
  next
    case (PDict d)
    then have "cs = map (\<lambda>kv. PStr (fst kv)) d" using that by simp
    then show ?thesis by (simp add: comp_def)
  qed (use that in simp_all)
  have children: "sum_list (map size cs) < size config"
    if "as_dict config = Inr b" and "py_iter (dict_get_default b k (PList [])) = Inr cs"
    for config b k cs
  proof -
    have c: "config = PDict b" using that(1) by (cases config) simp_all
    show ?thesis
    proof (cases "map_of b k")
      case None
      then have "cs = []" using that(2) by (simp add: dict_get_default_def)
      then show ?thesis using c by simp
    next
      case (Some v)
      then have "py_iter v = Inr cs" using that(2) by (simp add: dict_get_default_def)
      then have "sum_list (map size cs) \<le> size v" by (rule elements)
      then show ?thesis using found [OF Some] c by simp
    qed
  qed
  show ?thesis
  proof (relation "inv_image (less_than <*lex*> less_than)
     (\<lambda>x. case x of
        Inl (Inl (fmt, env, generator)) \<Rightarrow> (size (PDict generator), 0)
      | Inl (Inr (fmt, env, config)) \<Rightarrow> (size config, 0)
      | Inr (Inl (fmt, env, config)) \<Rightarrow> (size config, 0)
      | Inr (Inr (fmt, env, children)) \<Rightarrow> (sum_list (map size children), Suc (length children)))",
    goal_cases)
    case 1
    show ?case by (intro wf_inv_image wf_lex_prod wf_less_than)
  next
    case (2 fmt env generator config)
    then show ?case using found [of generator "''merge''" config] by (simp add: dict_get_def)
  next
    case (3 fmt env generator config)
    then show ?case using found [of generator "''matrix''" config] by (simp add: dict_get_def)
  next
    case (4 fmt env config b n cs)
    then show ?case using children [of config b "''generators''" cs] by simp
  next
    case (5 fmt env config b cs)
    then show ?case using children [of config b "''generators''" cs] by simp
  next
    case (6 fmt env child child_generators b)
    then have "child = PDict b" by (cases child) simp_all
    then show ?case by auto
  next
    case (7 fmt env child child_generators b x y ba)
    then show ?case by auto
  qed
qed

declare expand_generator.simps [simp del] expand_matrix_generator.simps [simp del]
  expand_merge_generator.simps [simp del]

section \<open>Expansion Orchestrator (\<^verbatim>\<open>expand_application_set\<close>, appset.py 21-61)\<close>

text \<open>The two fields of \<^verbatim>\<open>ApplicationSet\<close> (models.py 223-233) that the expansion reads.\<close>

record application_set =
  generators :: "pyval list"
  template :: pydict

text \<open>The first loop: \<^verbatim>\<open>all_params.extend(params)\<close> for every generator, in order.\<close>

fun expand_all_generators ::
  "(pyval \<Rightarrow> string) \<Rightarrow> environment \<Rightarrow> pyval list \<Rightarrow> pydict list outcome" where
  "expand_all_generators fmt env [] = ([], Inr [])"
| "expand_all_generators fmt env (g # gs) =
     (case as_dict g of
        Inl err \<Rightarrow> ([], Inl err)
      | Inr generator \<Rightarrow>
         (case expand_generator fmt env generator of
            (diags, Inl err) \<Rightarrow> (diags, Inl err)
          | (diags, Inr params) \<Rightarrow>
             (case expand_all_generators fmt env gs of
                (diags', Inl err) \<Rightarrow> (diags @ diags', Inl err)
              | (diags', Inr all_params) \<Rightarrow> (diags @ diags', Inr (params @ all_params)))))"

text \<open>
  Lines 45-58: the document built around the substituted template. The dictionary
  display with \<^verbatim>\<open>**app_dict\<close> stores the two envelope fields and then the items of
  the template.
\<close>

definition assemble_application :: "pydict \<Rightarrow> pydict" where
  "assemble_application app_dict =
     (let full_dict = dict_update []
            [(''apiVersion'', PStr ''argoproj.io/v1alpha1''),
             (''kind'', PStr ''Application''),
             (''metadata'', dict_get_default app_dict ''metadata'' (PDict [])),
             (''spec'', dict_get_default app_dict ''spec'' (PDict app_dict))]
      in if \<not> dict_contains app_dict ''metadata'' \<and> \<not> dict_contains app_dict ''spec''
         then dict_update []
                ([(''apiVersion'', PStr ''argoproj.io/v1alpha1''),
                  (''kind'', PStr ''Application'')] @ app_dict)
         else full_dict)"

text \<open>The second loop; \<^verbatim>\<open>app_dict.get\<close> needs the substituted template to be a dictionary.\<close>

fun applications_loop ::
  "(pyval \<Rightarrow> string) \<Rightarrow> pydict \<Rightarrow> pydict list \<Rightarrow> py_error + pydict list" where
  "applications_loop fmt tmpl [] = Inr []"
| "applications_loop fmt tmpl (params # all_params) =
     (case substitute_params_deep fmt (PDict tmpl) params of
        Inl err \<Rightarrow> Inl err
      | Inr app \<Rightarrow>
         (case as_dict app of
            Inl err \<Rightarrow> Inl err
          | Inr app_dict \<Rightarrow>
             (case applications_loop fmt tmpl all_params of
                Inl err \<Rightarrow> Inl err
              | Inr applications \<Rightarrow> Inr (assemble_application app_dict # applications))))"

definition expand_application_set ::
  "(pyval \<Rightarrow> string) \<Rightarrow> environment \<Rightarrow> application_set \<Rightarrow> pydict list outcome" where
  "expand_application_set fmt env appset =
     (case expand_all_generators fmt env (generators appset) of
        (diags, Inl err) \<Rightarrow> (diags, Inl err)
      | (diags, Inr all_params) \<Rightarrow> (diags, applications_loop fmt (template appset) all_params))"

subsection \<open>The output document as the specification words it\<close>

text \<open>
  When the substituted template has both \<^verbatim>\<open>metadata\<close> and \<^verbatim>\<open>spec\<close>, the envelope
  fields are wrapped around those two fields as they are; otherwise the whole
  substituted template is the payload, directly under the envelope.
\<close>

definition spec_assemble_application :: "pydict \<Rightarrow> pydict" where
  "spec_assemble_application app_dict =
     (if dict_contains app_dict ''metadata'' \<and> dict_contains app_dict ''spec''
      then [(''apiVersion'', PStr ''argoproj.io/v1alpha1''),
            (''kind'', PStr ''Application''),
            (''metadata'', dict_get_default app_dict ''metadata'' PNone),
            (''spec'', dict_get_default app_dict ''spec'' PNone)]
      else dict_update []
             ([(''apiVersion'', PStr ''argoproj.io/v1alpha1''),
               (''kind'', PStr ''Application'')] @ app_dict))"

subsection \<open>An example environment\<close>

fun example_yaml_safe_load :: "string \<Rightarrow> parse_result" where
  "example_yaml_safe_load content =
     (if content = ''env: dev'' then Parsed (PDict [(''env'', PStr ''dev'')])
      else if content = ''[1, 2]'' then Parsed (PList [PInt 1, PInt 2])
      else ParseError)"

fun example_json_loads :: "string \<Rightarrow> parse_result" where
  "example_json_loads content =
     (if content = ''[1, 2]'' then Parsed (PList [PInt 1, PInt 2]) else ParseError)"

fun example_resolve :: "pyval \<Rightarrow> pyval \<Rightarrow> py_error + repo_dir" where
  "example_resolve repo_url revision =
     (if repo_url = PStr ''https://example.com/repo.git'' then Inr example_repo
      else Inl ResolveError)"

definition example_env :: environment where
  "example_env =
     \<lparr>resolve = example_resolve, yaml_safe_load = example_yaml_safe_load,
      json_loads = example_json_loads\<rparr>"

subsection \<open>The matrix combination as the specification words it\<close>

text \<open>
  A tuple of the cartesian product is a choice of one position in every child's result
  sequence: \<open>index_tuples\<close> lists the choices, \<open>pick\<close> takes the chosen parameter sets.
\<close>

definition index_tuples :: "'a list list \<Rightarrow> nat list list" where
  "index_tuples xss = itertools_product (map (\<lambda>xs. [0..<length xs]) xss)"

definition pick :: "'a list list \<Rightarrow> nat list \<Rightarrow> 'a list" where
  "pick xss idx = map (\<lambda>(xs, i). xs ! i) (zip xss idx)"

text \<open>The value of a key in the merge of a tuple: the value in the last member that has the key.\<close>

fun spec_later_wins :: "pydict list \<Rightarrow> string \<Rightarrow> pyval option" where
  "spec_later_wins [] k = None"
| "spec_later_wins (p # combo) k =
     (case spec_later_wins combo k of Some v \<Rightarrow> Some v | None \<Rightarrow> dict_get p k)"

subsection \<open>Example generator configurations\<close>

definition example_env_list :: pyval where
  "example_env_list =
     PDict [(''list'', PDict [(''elements'', PList
       [PDict [(''env'', PStr ''dev''), (''tier'', PStr ''low'')],
        PDict [(''env'', PStr ''staging''), (''tier'', PStr ''low'')]])])]"

definition example_app_list :: pyval where
  "example_app_list =
     PDict [(''list'', PDict [(''elements'', PList
       [PDict [(''app'', PStr ''frontend'')],
        PDict [(''app'', PStr ''backend''), (''tier'', PStr ''high'')]])])]"

definition example_matrix_config :: pydict where
  "example_matrix_config = [(''generators'', PList [example_env_list, example_app_list])]"

subsection \<open>The soft-fail inputs\<close>

text \<open>\<^verbatim>\<open>isinstance(v, dict)\<close>\<close>

fun is_dict :: "pyval \<Rightarrow> bool" where
  "is_dict (PDict d) = True"
| "is_dict v = False"

text \<open>A generator configuration with none of the five variant keys.\<close>

definition unknown_variant :: "pydict \<Rightarrow> bool" where
  "unknown_variant generator =
     (dict_get generator ''list'' = None \<and> dict_get generator ''git'' = None
      \<and> dict_get generator ''clusters'' = None \<and> dict_get generator ''matrix'' = None
      \<and> dict_get generator ''merge'' = None)"

text \<open>
  A file that raises in the \<^verbatim>\<open>try\<close> block with an exception that the \<^verbatim>\<open>except\<close>
  clause names: it cannot be read, or its text is no YAML, or its YAML value is no
  record and its text is no JSON.
\<close>

definition fails_to_parse :: "environment \<Rightarrow> repo_dir \<Rightarrow> path \<Rightarrow> bool" where
  "fails_to_parse env repo file_path =
     (case read_text repo file_path of
        OSError \<Rightarrow> True
      | BadEncoding \<Rightarrow> False
      | FileText content \<Rightarrow>
         (case yaml_safe_load env content of
            ParseError \<Rightarrow> True
          | Parsed v \<Rightarrow> \<not> is_dict v \<and> json_loads env content = ParseError))"

text \<open>A file that both loaders read, neither of them as a record.\<close>

definition parses_to_non_record :: "environment \<Rightarrow> repo_dir \<Rightarrow> path \<Rightarrow> bool" where
  "parses_to_non_record env repo file_path =
     (case read_text repo file_path of
        FileText content \<Rightarrow>
         (case yaml_safe_load env content of
            Parsed v \<Rightarrow>
              \<not> is_dict v
              \<and> (case json_loads env content of Parsed w \<Rightarrow> \<not> is_dict w | ParseError \<Rightarrow> False)
          | ParseError \<Rightarrow> False)
      | _ \<Rightarrow> False)"

subsection \<open>The merge combination as the specification words it\<close>

text \<open>
  The merge key of a parameter set: the texts of the merge-key fields (the empty string
  for an absent field), joined by the separator \<^verbatim>\<open>|\<close>.
\<close>

definition spec_merge_key :: "(pyval \<Rightarrow> string) \<Rightarrow> pyval list \<Rightarrow> pydict \<Rightarrow> string" where
  "spec_merge_key fmt ks params = join_with ''|'' (map (spec_param_text fmt params) ks)"

text \<open>The distinct elements of a list, each at the place of its first occurrence.\<close>

fun first_occurrences :: "'a list \<Rightarrow> 'a list" where
  "first_occurrences [] = []"
| "first_occurrences (x # xs) = x # removeAll x (first_occurrences xs)"

text \<open>
  The entry of a merge key: the last parameter set of the first child with that key,
  overlaid, in order, with the parameter sets of the later children that have the key.
\<close>

definition spec_merged_entry ::
  "(pyval \<Rightarrow> string) \<Rightarrow> pyval list \<Rightarrow> pydict list \<Rightarrow> pydict list \<Rightarrow> string \<Rightarrow> pydict" where
  "spec_merged_entry fmt ks first_params later_params key =
     foldl dict_update
       (last (filter (\<lambda>p. spec_merge_key fmt ks p = key) first_params))
       (filter (\<lambda>q. spec_merge_key fmt ks q = key) later_params)"

text \<open>
  The result of the merge: one entry per merge key of the first child, in the order in
  which the keys first occur; a parameter set of a later child whose key the first child
  does not have is in no entry.
\<close>

definition spec_merge ::
  "(pyval \<Rightarrow> string) \<Rightarrow> pyval list \<Rightarrow> pydict list \<Rightarrow> pydict list \<Rightarrow> pydict list" where
  "spec_merge fmt ks first_params later_params =
     map (spec_merged_entry fmt ks first_params later_params)
       (first_occurrences (map (spec_merge_key fmt ks) first_params))"

definition example_merge_config :: pydict where
  "example_merge_config =
     [(''mergeKeys'', PList [PStr ''name'']),
      (''generators'', PList
         [PDict [(''list'', PDict [(''elements'', PList
            [PDict [(''name'', PStr ''app1''), (''replicas'', PInt 1)],
             PDict [(''name'', PStr ''app2''), (''replicas'', PInt 2)],
             PDict [(''name'', PStr ''app1''), (''replicas'', PInt 3)]])])],
          PDict [(''list'', PDict [(''elements'', PList
            [PDict [(''name'', PStr ''app1''), (''env'', PStr ''prod'')],
             PDict [(''name'', PStr ''app9''), (''env'', PStr ''dev'')]])])]])]"

section \<open>Properties of the Name Normalizer\<close>

lemma lower_char_class:
  "in_name_class c \<Longrightarrow> is_lower (lower_char c) \<or> is_digit (lower_char c) \<or> lower_char c = CHR ''-''"
  by (auto simp: in_name_class_def lower_char_def is_lower_def is_upper_def is_digit_def
      less_eq_char_def)

lemma lower_char_hyphen: "lower_char c = CHR ''-'' \<longleftrightarrow> c = CHR ''-''"
proof
  assume h: "lower_char c = CHR ''-''"
  show "c = CHR ''-''"
  proof (cases "is_upper c")
    case True
    then have "of_char (lower_char c) = (of_char c + 32 :: nat)"
      by (simp add: lower_char_def is_upper_def less_eq_char_def)
    moreover have "(65::nat) \<le> of_char c"
      using True by (simp add: is_upper_def less_eq_char_def)
    ultimately show ?thesis using h by simp
  next
    case False
    then show ?thesis using h by (simp add: lower_char_def)
  qed
next
  assume "c = CHR ''-''"
  then show "lower_char c = CHR ''-''"
    by (simp add: lower_char_def is_upper_def)
qed

lemma lower_char_fixed:
  "is_lower c \<or> is_digit c \<or> c = CHR ''-'' \<Longrightarrow> lower_char c = c"
  by (auto simp: lower_char_def is_lower_def is_upper_def is_digit_def less_eq_char_def)

lemma set_strip_hyphens: "set (strip_hyphens s) \<subseteq> set s"
proof -
  have "set (strip_hyphens s) = set (dropWhile (\<lambda>c. c = CHR ''-'') (rev (dropWhile (\<lambda>c. c = CHR ''-'') s)))"
    by (simp add: strip_hyphens_def)
  also have "\<dots> \<subseteq> set (rev (dropWhile (\<lambda>c. c = CHR ''-'') s))"
    by (meson set_dropWhileD subsetI)
  also have "\<dots> \<subseteq> set s"
    using set_dropWhileD by fastforce
  finally show ?thesis .
qed

lemma strip_both_ends:
  fixes P :: "'a \<Rightarrow> bool"
  defines "r \<equiv> \<lambda>s. rev (dropWhile P (rev (dropWhile P s)))"
  assumes ne: "r s \<noteq> []"
  shows "\<not> P (hd (r s)) \<and> \<not> P (last (r s))"
proof -
  let ?a = "dropWhile P s"
  let ?b = "dropWhile P (rev ?a)"
  have b: "?b \<noteq> []" using ne unfolding r_def by simp
  have "\<not> P (hd ?b)" using b by (rule hd_dropWhile)
  moreover have "last (r s) = hd ?b" unfolding r_def using b by (simp only: last_rev)
  ultimately have l: "\<not> P (last (r s))" by simp
  have "rev ?a = takeWhile P (rev ?a) @ ?b" by (simp only: takeWhile_dropWhile_id)
  then have "rev (rev ?a) = rev (takeWhile P (rev ?a) @ ?b)" by (rule arg_cong)
  then have split: "?a = r s @ rev (takeWhile P (rev ?a))"
    unfolding r_def by (simp only: rev_rev_ident rev_append)
  then have a: "?a \<noteq> []" using ne by (metis append_is_Nil_conv)
  have "hd ?a = hd (r s)" using split ne by (metis hd_append2)
  moreover have "\<not> P (hd ?a)" using a by (rule hd_dropWhile)
  ultimately show ?thesis using l by simp
qed

lemma strip_hyphens_edges:
  "strip_hyphens s = [] \<or> (hd (strip_hyphens s) \<noteq> CHR ''-'' \<and> last (strip_hyphens s) \<noteq> CHR ''-'')"
  using strip_both_ends [of "\<lambda>c. c = CHR ''-''" s] unfolding strip_hyphens_def by blast

lemma strip_hyphens_id:
  assumes "s = [] \<or> (hd s \<noteq> CHR ''-'' \<and> last s \<noteq> CHR ''-'')"
  shows "strip_hyphens s = s"
proof (cases s)
  case Nil
  then show ?thesis by (simp add: strip_hyphens_def)
next
  case (Cons c cs)
  then have h: "c \<noteq> CHR ''-''" and l: "last s \<noteq> CHR ''-''" using assms by auto
  have 1: "dropWhile (\<lambda>c. c = CHR ''-'') s = s" using Cons h by simp
  obtain x xs where r: "rev s = x # xs" using Cons by (cases "rev s") simp_all
  then have "x = last s" using Cons by (metis hd_rev list.sel(1))
  then have "dropWhile (\<lambda>c. c = CHR ''-'') (x # xs) = x # xs"
    using l by simp
  then have 2: "dropWhile (\<lambda>c. c = CHR ''-'') (rev s) = rev s"
    by (simp only: r)
  show ?thesis unfolding strip_hyphens_def by (simp only: 1 2 rev_rev_ident)
qed

lemma normalize_name_pattern: "matches_normalized_pattern (normalize_name s)"
proof -
  have "\<forall>c \<in> set (sub_non_name_chars s). in_name_class c"
    by (auto simp: sub_non_name_chars_def in_name_class_def)
  then have "\<forall>c \<in> set (strip_hyphens (sub_non_name_chars s)). in_name_class c"
    using set_strip_hyphens by blast
  then show ?thesis
    by (auto simp: matches_normalized_pattern_def normalize_name_def list_all_iff
        dest: lower_char_class)
qed

lemma normalize_name_edges: "no_edge_hyphen (normalize_name s)"
proof -
  let ?t = "strip_hyphens (sub_non_name_chars s)"
  show ?thesis
  proof (cases "?t = []")
    case True
    then show ?thesis by (simp add: no_edge_hyphen_def normalize_name_def)
  next
    case False
    then have e: "hd ?t \<noteq> CHR ''-'' \<and> last ?t \<noteq> CHR ''-''"
      using strip_hyphens_edges [of "sub_non_name_chars s"] by simp
    have "hd (map lower_char ?t) = lower_char (hd ?t)" using False by (simp add: hd_map)
    moreover have "last (map lower_char ?t) = lower_char (last ?t)"
      using False by (simp add: last_map)
    ultimately show ?thesis
      using e by (simp add: no_edge_hyphen_def normalize_name_def lower_char_hyphen)
  qed
qed

lemma normalize_name_fixed:
  assumes "matches_normalized_pattern t" and "no_edge_hyphen t"
  shows "normalize_name t = t"
proof -
  have c: "\<forall>c \<in> set t. is_lower c \<or> is_digit c \<or> c = CHR ''-''"
    using assms(1) by (simp add: matches_normalized_pattern_def list_all_iff)
  have "map (\<lambda>c. if in_name_class c then c else CHR ''-'') t = t"
    using c by (intro map_idI) (auto simp: in_name_class_def)
  then have "sub_non_name_chars t = t"
    by (simp only: sub_non_name_chars_def)
  moreover have "strip_hyphens t = t"
    using assms(2) by (intro strip_hyphens_id) (simp add: no_edge_hyphen_def)
  moreover have "map lower_char t = t"
    using c by (intro map_idI) (simp add: lower_char_fixed)
  ultimately show ?thesis by (simp add: normalize_name_def)
qed

text \<open>
  C8. The Name Normalizer is a total function of its argument alone; normalizing a
  normalized name changes nothing; and every output consists of characters of
  \<^verbatim>\<open>[a-z0-9-]\<close> only, with no hyphen at its start or at its end.
\<close>

theorem normalize_name_idempotent_and_shaped:
  "normalize_name (normalize_name s) = normalize_name s
   \<and> matches_normalized_pattern (normalize_name s)
   \<and> no_edge_hyphen (normalize_name s)"
  using normalize_name_fixed [OF normalize_name_pattern normalize_name_edges]
    normalize_name_pattern normalize_name_edges by simp

theorem normalize_name_idempotent_and_shaped_witness:
  "normalize_name ''--My_App@v1.0--'' = ''my-app-v1-0''
   \<and> normalize_name (normalize_name ''--My_App@v1.0--'') = normalize_name ''--My_App@v1.0--''
   \<and> matches_normalized_pattern (normalize_name ''--My_App@v1.0--'')
   \<and> no_edge_hyphen (normalize_name ''--My_App@v1.0--'')"
proof -
  have "normalize_name ''--My_App@v1.0--'' = ''my-app-v1-0''"
    by code_simp
  then show ?thesis
    using normalize_name_idempotent_and_shaped [of "''--My_App@v1.0--''"] by simp
qed

section \<open>Properties of the Selector Filter\<close>

lemma spec_param_text_get:
  "spec_param_text fmt params (PStr k) = py_str fmt (dict_get_default params k (PStr ''''))"
  by (simp add: spec_param_text_def dict_contains_def dict_get_default_def py_str_def
      split: option.splits)

lemma params_get_text:
  "hashable key \<Longrightarrow> \<exists>found. params_get params key = Inr found \<and> py_str fmt found = spec_param_text fmt params key"
  by (cases key) (simp_all add: spec_param_text_get, simp_all add: spec_param_text_def py_str_def)









lemma match_expressions_skip:
  assumes "dict_get_default expr ''operator'' (PStr '''')
      \<notin> {PStr ''In'', PStr ''NotIn'', PStr ''Exists'', PStr ''DoesNotExist''}"
    and "hashable (dict_get_default expr ''key'' (PStr ''''))"
  shows "match_expressions_loop fmt params (PDict expr # rest)
     = match_expressions_loop fmt params rest"
proof -
  obtain found where "params_get params (dict_get_default expr ''key'' (PStr '''')) = Inr found"
    using params_get_text [OF assms(2)] by blast
  then show ?thesis using assms(1) by (simp add: Let_def)
qed

lemma match_expressions_remove:
  assumes "match_expressions_loop fmt params (e # rest) = match_expressions_loop fmt params rest"
  shows "match_expressions_loop fmt params (before @ e # rest)
     = match_expressions_loop fmt params (before @ rest)"
proof (induction before)
  case Nil
  then show ?case using assms by simp
next
  case (Cons b before)
  show ?case
    by (simp only: append_Cons match_expressions_loop.simps Cons.IH)
qed

text \<open>
  C10. An expression whose operator is none of \<^verbatim>\<open>In\<close>, \<^verbatim>\<open>NotIn\<close>, \<^verbatim>\<open>Exists\<close>,
  \<^verbatim>\<open>DoesNotExist\<close> imposes no constraint: it counts as satisfied, and removing it
  from the selector changes the verdict of \<^verbatim>\<open>_matches_selector\<close> on no parameter set.
\<close>

theorem unknown_operator_imposes_no_constraint:
  assumes "dict_get_default expr ''operator'' (PStr '''')
      \<notin> {PStr ''In'', PStr ''NotIn'', PStr ''Exists'', PStr ''DoesNotExist''}"
    and "hashable (dict_get_default expr ''key'' (PStr ''''))"
  shows "spec_expression_satisfied fmt params (PDict expr)
    \<and> matches_selector fmt params labels (PList (before @ PDict expr # rest))
        = matches_selector fmt params labels (PList (before @ rest))"
proof -
  have "spec_expression_satisfied fmt params (PDict expr)"
    using assms(1) by (simp add: Let_def)
  moreover have "match_expressions_loop fmt params (before @ PDict expr # rest)
      = match_expressions_loop fmt params (before @ rest)"
    using match_expressions_skip [OF assms] by (rule match_expressions_remove)
  ultimately show ?thesis by (simp add: matches_selector_def split: sum.split)
qed

theorem unknown_operator_imposes_no_constraint_witness:
  "dict_get_default [(''key'', PStr ''env''), (''operator'', PStr ''Gt''), (''values'', PList [PStr ''x''])]
       ''operator'' (PStr '''')
     \<notin> {PStr ''In'', PStr ''NotIn'', PStr ''Exists'', PStr ''DoesNotExist''}
   \<and> hashable (dict_get_default
        [(''key'', PStr ''env''), (''operator'', PStr ''Gt''), (''values'', PList [PStr ''x''])]
        ''key'' (PStr ''''))
   \<and> matches_selector scalar_text [(''env'', PStr ''prod'')] (PDict [])
        (PList [PDict [(''key'', PStr ''env''), (''operator'', PStr ''Gt''),
                       (''values'', PList [PStr ''x''])]]) = Inr True"
proof -
  let ?expr = "[(''key'', PStr ''env''), (''operator'', PStr ''Gt''), (''values'', PList [PStr ''x''])]"
  have o: "dict_get_default ?expr ''operator'' (PStr '''')
     \<notin> {PStr ''In'', PStr ''NotIn'', PStr ''Exists'', PStr ''DoesNotExist''}"
    by (simp add: dict_get_default_def)
  have k: "hashable (dict_get_default ?expr ''key'' (PStr ''''))"
    by (simp add: dict_get_default_def)
  have "matches_selector scalar_text [(''env'', PStr ''prod'')] (PDict []) (PList []) = Inr True"
    by (simp add: matches_selector_def)
  then show ?thesis
    using o k unknown_operator_imposes_no_constraint [OF o k, of scalar_text
        "[(''env'', PStr ''prod'')]" "PDict []" "[]" "[]"]
    by simp
qed


section \<open>Properties of the Template Substitutor\<close>

lemma substitute_loop_total:
  "set keys \<subseteq> fst ` set params \<Longrightarrow> \<exists>r. substitute_loop fmt params keys s = Inr r"
proof (induction keys arbitrary: s)
  case Nil
  then show ?case by simp
next
  case (Cons key keys)
  then have "key \<in> fst ` set params" by simp
  then obtain v where "dict_get params key = Some v"
    unfolding dict_get_def by (metis map_of_eq_None_iff not_Some_eq)
  then show ?case using Cons by simp
qed

lemma keys_longest_first_set: "set (keys_longest_first params) = fst ` set params"
  by (simp add: keys_longest_first_def)

lemma substitute_params_total:
  "\<exists>r. substitute_params fmt (PStr s) params = Inr (PStr r)"
proof -
  obtain r where "substitute_loop fmt params (keys_longest_first params) s = Inr r"
    using substitute_loop_total [of "keys_longest_first params" params fmt s]
    by (auto simp: keys_longest_first_set)
  then show ?thesis by simp
qed

lemma substitute_deep_total:
  "\<exists>r. substitute_params_deep fmt obj params = Inr r \<and> structure_of r = structure_of obj"
  "\<exists>r. substitute_items fmt d params = Inr r \<and> structure_of_fields r = structure_of_fields d"
  "\<exists>r. substitute_elements fmt xs params = Inr r \<and> structure_of_seq r = structure_of_seq xs"
proof (induction fmt obj params and fmt d params and fmt xs params
    rule: substitute_params_deep_substitute_items_substitute_elements.induct)
  case (1 fmt s params)
  obtain r where "substitute_params fmt (PStr s) params = Inr (PStr r)"
    using substitute_params_total by blast
  then show ?case by (simp del: substitute_params.simps)
next
  case (2 fmt d params)
  then show ?case by auto
next
  case (3 fmt xs params)
  then show ?case by auto
next
  case (8 fmt k v d params)
  then obtain v' where v: "substitute_params_deep fmt v params = Inr v'"
    and sv: "structure_of v' = structure_of v" by blast
  obtain d' where d: "substitute_items fmt d params = Inr d'"
    and sd: "structure_of_fields d' = structure_of_fields d" using 8(2) [OF v] by blast
  show ?case by (simp add: v d sv sd)
next
  case (10 fmt x xs params)
  then obtain x' where x: "substitute_params_deep fmt x params = Inr x'"
    and sx: "structure_of x' = structure_of x" by blast
  obtain xs' where xs: "substitute_elements fmt xs params = Inr xs'"
    and sxs: "structure_of_seq xs' = structure_of_seq xs" using 10(2) [OF x] by blast
  show ?case by (simp add: x xs sx sxs)
qed simp_all

lemma insort_key_map_fst:
  "insort_key f (fst x) (map fst ys) = map fst (insort_key (\<lambda>kv. f (fst kv)) x ys)"
  by (induction ys) simp_all

lemma sort_key_map_fst:
  "sort_key f (map fst xs) = map fst (sort_key (\<lambda>kv. f (fst kv)) xs)"
  by (induction xs) (simp_all add: insort_key_map_fst)

lemma substitute_loop_items:
  assumes "distinct (map fst params)"
  shows "set kvs \<subseteq> set params \<Longrightarrow>
    substitute_loop fmt params (map fst kvs) s
      = Inr (foldl (\<lambda>acc kv. replace_str (''{{'' @ fst kv @ ''}}'') (py_str fmt (snd kv)) acc) s kvs)"
proof (induction kvs arbitrary: s)
  case Nil
  then show ?case by simp
next
  case (Cons kv kvs)
  then have "(fst kv, snd kv) \<in> set params" by simp
  then have "dict_get params (fst kv) = Some (snd kv)"
    unfolding dict_get_def using assms by (rule map_of_is_SomeI [rotated])
  then show ?case using Cons by simp
qed

lemma substitute_params_spec:
  assumes "distinct (map fst params)"
  shows "substitute_params fmt (PStr s) params = Inr (PStr (spec_substitute fmt s params))"
proof -
  have "keys_longest_first params = map fst (sort_key (\<lambda>kv. - int (length (fst kv))) params)"
    by (simp add: keys_longest_first_def sort_key_map_fst)
  then show ?thesis
    using substitute_loop_items [OF assms, of "sort_key (\<lambda>kv. - int (length (fst kv))) params" fmt s]
    by (simp add: spec_substitute_def)
qed

lemma substitute_deep_spec:
  assumes "distinct (map fst params)"
  shows "substitute_params_deep fmt obj params = Inr (spec_substitute_deep fmt obj params)"
    and "substitute_items fmt d params = Inr (spec_substitute_fields fmt d params)"
    and "substitute_elements fmt xs params = Inr (spec_substitute_seq fmt xs params)"
  using assms
proof (induction fmt obj params and fmt d params and fmt xs params
    rule: substitute_params_deep_substitute_items_substitute_elements.induct)
  case (1 fmt s params)
  then show ?case by (simp add: substitute_params_spec del: substitute_params.simps)
qed simp_all

lemma replace_str_absent: "\<not> occurs_in old s \<Longrightarrow> replace_str old new s = s"
  by (induction s) auto

lemma substitute_loop_absent:
  "set keys \<subseteq> fst ` set params \<Longrightarrow>
   \<forall>k \<in> set keys. \<not> occurs_in (''{{'' @ k @ ''}}'') s \<Longrightarrow>
   substitute_loop fmt params keys s = Inr s"
proof (induction keys)
  case Nil
  then show ?case by simp
next
  case (Cons key keys)
  then have "key \<in> fst ` set params" by simp
  then obtain v where v: "dict_get params key = Some v"
    unfolding dict_get_def by (metis map_of_eq_None_iff not_Some_eq)
  have "replace_str (''{{'' @ key @ ''}}'') (py_str fmt v) s = s"
    using Cons.prems(2) by (intro replace_str_absent) simp
  then show ?case using Cons v by simp
qed

lemma substitute_params_absent:
  assumes "\<forall>k \<in> fst ` set params. \<not> occurs_in (''{{'' @ k @ ''}}'') s"
  shows "substitute_params fmt (PStr s) params = Inr (PStr s)"
  using substitute_loop_absent [of "keys_longest_first params" params s fmt] assms
  by (simp add: keys_longest_first_set)


text \<open>
  C5. The Template Substitutor never fails and returns a value of the structure of the
  template. For a parameter set (a dictionary: its keys are distinct) the result is what
  the specification words: in every string, for every parameter key, longest key first,
  every literal occurrence of \<^verbatim>\<open>{{key}}\<close> is replaced by the text of that key's
  value; maps and sequences are recursed into; other scalars pass through. A string in
  which no \<^verbatim>\<open>{{key}}\<close> of the parameter set occurs comes back verbatim.
\<close>

theorem substitutor_refines_spec:
  "(\<exists>r. substitute_params_deep fmt obj params = Inr r \<and> structure_of r = structure_of obj)
   \<and> (distinct (map fst params) \<longrightarrow>
        substitute_params_deep fmt obj params = Inr (spec_substitute_deep fmt obj params))
   \<and> ((\<forall>k \<in> fst ` set params. \<not> occurs_in (''{{'' @ k @ ''}}'') s) \<longrightarrow>
        substitute_params_deep fmt (PStr s) params = Inr (PStr s))"
  using substitute_deep_total(1) [of fmt obj params] substitute_deep_spec(1) [of params fmt obj]
    substitute_params_absent [of params s fmt]
  by (simp del: substitute_params.simps)

theorem substitutor_refines_spec_witness:
  "distinct (map fst [(''path'', PStr ''apps/demo''), (''path.basename'', PStr ''demo'')])
   \<and> \<not> occurs_in (''{{'' @ ''path'' @ ''}}'') ''{{unknown}}''
   \<and> \<not> occurs_in (''{{'' @ ''path.basename'' @ ''}}'') ''{{unknown}}''
   \<and> substitute_params_deep scalar_text
        (PDict [(''metadata'', PDict [(''name'', PStr ''app-{{path.basename}}'')]),
                (''tags'', PList [PStr ''{{path}}/{{unknown}}'', PInt 3])])
        [(''path'', PStr ''apps/demo''), (''path.basename'', PStr ''demo'')]
      = Inr (PDict [(''metadata'', PDict [(''name'', PStr ''app-demo'')]),
                    (''tags'', PList [PStr ''apps/demo/{{unknown}}'', PInt 3])])
   \<and> substitute_params_deep scalar_text (PStr ''{{unknown}}'')
        [(''path'', PStr ''apps/demo''), (''path.basename'', PStr ''demo'')]
      = Inr (PStr ''{{unknown}}'')"
proof -
  let ?params = "[(''path'', PStr ''apps/demo''), (''path.basename'', PStr ''demo'')]"
  let ?obj = "PDict [(''metadata'', PDict [(''name'', PStr ''app-{{path.basename}}'')]),
                (''tags'', PList [PStr ''{{path}}/{{unknown}}'', PInt 3])]"
  have d: "distinct (map fst ?params)" by simp
  have a: "\<forall>k \<in> fst ` set ?params. \<not> occurs_in (''{{'' @ k @ ''}}'') ''{{unknown}}''"
    by simp
  have e: "spec_substitute_deep scalar_text ?obj ?params
      = PDict [(''metadata'', PDict [(''name'', PStr ''app-demo'')]),
               (''tags'', PList [PStr ''apps/demo/{{unknown}}'', PInt 3])]"
    by code_simp
  show ?thesis
    using d a e substitutor_refines_spec [of scalar_text ?obj ?params "''{{unknown}}''"]
    by (simp del: substitute_params.simps substitute_params_deep.simps)
qed


section \<open>Properties of the Git-Directory Generator\<close>

lemma map_of_dict_setitem: "map_of (dict_setitem d k v) = (map_of d)(k \<mapsto> v)"
  by (induction d k v rule: dict_setitem.induct) auto

lemma map_of_dict_update: "map_of (dict_update d other) k
    = (case map_of (rev other) k of None \<Rightarrow> map_of d k | Some v \<Rightarrow> Some v)"
  by (induction d other rule: dict_update.induct)
    (auto simp: map_of_dict_setitem map_add_def split: option.splits)

lemma partition_directories_spec:
  "partition_directories entries = Inr (inc, exc) \<Longrightarrow>
   inc = map entry_pattern (filter (\<lambda>e. \<not> entry_excluded e) entries)
   \<and> exc = map entry_pattern (filter entry_excluded entries)"
proof (induction entries arbitrary: inc exc)
  case Nil
  then show ?case by simp
next
  case (Cons e entries)
  from Cons.prems obtain d where e: "e = PDict d" by (cases e) simp_all
  from Cons.prems e obtain inc' exc' where r: "partition_directories entries = Inr (inc', exc')"
    by (auto split: sum.splits)
  note ih = Cons.IH [OF r]
  show ?case using Cons.prems e r ih by (auto simp: Let_def split: if_splits)
qed

lemma find_matching_directories_finite:
  "find_matching_directories repo pattern = Inr m \<Longrightarrow> finite m"
  by (auto simp: find_matching_directories_def split: if_splits sum.splits)

lemma matches_of_finite: "finite (matches_of repo p)"
  by (auto simp: matches_of_def find_matching_directories_finite split: pyval.splits sum.splits)

lemma add_included_spec:
  "add_included repo patterns acc = Inr r \<Longrightarrow> r = acc \<union> (\<Union>p \<in> set patterns. matches_of repo p)"
proof (induction patterns arbitrary: acc)
  case Nil
  then show ?case by simp
next
  case (Cons p patterns)
  from Cons.prems obtain pattern where p: "p = PStr pattern" by (cases p) simp_all
  from Cons.prems p obtain m where m: "find_matching_directories repo pattern = Inr m"
    by (auto split: sum.splits)
  have "add_included repo patterns (acc \<union> m) = Inr r" using Cons.prems p m by simp
  then have "r = (acc \<union> m) \<union> (\<Union>p \<in> set patterns. matches_of repo p)" by (rule Cons.IH)
  moreover have "matches_of repo p = m" by (simp add: matches_of_def p m)
  ultimately show ?case by auto
qed

lemma remove_excluded_spec:
  "remove_excluded repo patterns acc = Inr r \<Longrightarrow> r = acc - (\<Union>p \<in> set patterns. matches_of repo p)"
proof (induction patterns arbitrary: acc)
  case Nil
  then show ?case by simp
next
  case (Cons p patterns)
  from Cons.prems obtain pattern where p: "p = PStr pattern" by (cases p) simp_all
  from Cons.prems p obtain m where m: "find_matching_directories repo pattern = Inr m"
    by (auto split: sum.splits)
  have "remove_excluded repo patterns (acc - m) = Inr r" using Cons.prems p m by simp
  then have "r = (acc - m) - (\<Union>p \<in> set patterns. matches_of repo p)" by (rule Cons.IH)
  moreover have "matches_of repo p = m" by (simp add: matches_of_def p m)
  ultimately show ?case by auto
qed

lemma spec_surviving_paths_finite: "finite (spec_surviving_paths repo entries)"
  by (simp add: spec_surviving_paths_def matches_of_finite)

lemma expand_git_directory_generator_paths:
  assumes "expand_git_directory_generator fmt repo config ppp = Inr out"
  shows "out = map (directory_params (key_prefix fmt ppp))
            (sorted_list_of_set (spec_surviving_paths repo (configured_directories config)))"
proof -
  from assms obtain entries where
    e: "py_iter (dict_get_default config ''directories'' (PList [])) = Inr entries"
    by (auto simp: expand_git_directory_generator_def split: sum.splits)
  from assms e obtain inc exc where pd: "partition_directories entries = Inr (inc, exc)"
    by (auto simp: expand_git_directory_generator_def split: sum.splits)
  from assms e pd obtain included where ai: "add_included repo inc {} = Inr included"
    by (auto simp: expand_git_directory_generator_def split: sum.splits)
  from assms e pd ai obtain matched where re: "remove_excluded repo exc included = Inr matched"
    by (auto simp: expand_git_directory_generator_def split: sum.splits)
  have out: "out = map (directory_params (key_prefix fmt ppp)) (sorted_list_of_set matched)"
    using assms e pd ai re by (simp add: expand_git_directory_generator_def)
  have "matched = spec_surviving_paths repo entries"
    using partition_directories_spec [OF pd] add_included_spec [OF ai] remove_excluded_spec [OF re]
    by (simp add: spec_surviving_paths_def)
  then show ?thesis using out e by (simp add: configured_directories_def)
qed

lemma dict_contains_setitem:
  "dict_contains (dict_setitem p k v) k' \<longleftrightarrow> k' = k \<or> dict_contains p k'"
  by (simp add: dict_contains_def map_of_dict_setitem)

lemma dict_contains_update:
  "dict_contains (dict_update d other) k \<longleftrightarrow> dict_contains d k \<or> k \<in> fst ` set other"
  by (induction d other rule: dict_update.induct) (auto simp: dict_contains_setitem)

lemma add_segments_keeps: "dict_contains p k \<Longrightarrow> dict_contains (add_segments pfx p i segs) k"
  by (induction segs arbitrary: p i) (simp_all add: dict_contains_setitem)

lemma add_segments_keys:
  "j < length segs \<Longrightarrow>
   dict_contains (add_segments pfx p i segs) (pfx @ ''path.segments.'' @ str_nat (i + j))
   \<and> dict_contains (add_segments pfx p i segs) (''path.segments.'' @ str_nat (i + j))"
proof (induction segs arbitrary: p i j)
  case Nil
  then show ?case by simp
next
  case (Cons seg segs)
  let ?p = "dict_setitem (dict_setitem p (pfx @ ''path.segments.'' @ str_nat i) (PStr seg))
      (''path.segments.'' @ str_nat i) (PStr seg)"
  show ?case
  proof (cases j)
    case 0
    have "dict_contains ?p (pfx @ ''path.segments.'' @ str_nat i)"
      and "dict_contains ?p (''path.segments.'' @ str_nat i)"
      by (simp_all add: dict_contains_setitem)
    then show ?thesis using 0 by (simp add: add_segments_keeps)
  next
    case (Suc j')
    then have "j' < length segs" using Cons.prems by simp
    from Cons.IH [OF this, of ?p "Suc i"] show ?thesis using Suc by simp
  qed
qed

lemma add_segments_short_key:
  "length k < 14 \<Longrightarrow> map_of (add_segments pfx p i segs) k = map_of p k"
proof (induction segs arbitrary: p i)
  case Nil
  then show ?case by simp
next
  case (Cons seg segs)
  have "k \<noteq> pfx @ ''path.segments.'' @ str_nat i" and "k \<noteq> ''path.segments.'' @ str_nat i"
    using Cons.prems by auto
  then show ?case using Cons by (simp add: map_of_dict_setitem)
qed

lemma directory_params_path:
  "dict_get (directory_params pfx d) ''path'' = Some (PStr (path_str d))"
proof -
  have 1: "pfx @ ''path.path'' \<noteq> ''path''" and 2: "pfx @ ''path.basename'' \<noteq> ''path''"
    and 3: "pfx @ ''path.basenameNormalized'' \<noteq> ''path''"
    by (auto dest: arg_cong [where f = length])
  show ?thesis
    using 1 2 3
    by (simp add: directory_params_def dict_get_def Let_def add_segments_short_key
        map_of_dict_setitem)
qed

lemma directory_params_carries: "carries_path_keys pfx d (directory_params pfx d)"
proof -
  let ?segs = "split_on CHR ''/'' (path_str d)"
  let ?p0 = "dict_update []
                [(pfx @ ''path'', PStr (path_str d)),
                 (pfx @ ''path.path'', PStr (path_str d)),
                 (pfx @ ''path.basename'', PStr (path_name d)),
                 (pfx @ ''path.basenameNormalized'', PStr (normalize_name (path_name d))),
                 (''path'', PStr (path_str d)),
                 (''path.path'', PStr (path_str d)),
                 (''path.basename'', PStr (path_name d)),
                 (''path.basenameNormalized'', PStr (normalize_name (path_name d)))]"
  have dp: "directory_params pfx d = add_segments pfx ?p0 0 ?segs"
    by (simp add: directory_params_def Let_def)
  have fixed: "\<forall>k \<in> set [''path'', ''path.path'', ''path.basename'', ''path.basenameNormalized''].
      dict_contains ?p0 (pfx @ k) \<and> dict_contains ?p0 k"
    by (simp add: dict_contains_update del: dict_update.simps)
  then have a: "\<forall>k \<in> set [''path'', ''path.path'', ''path.basename'', ''path.basenameNormalized''].
      dict_contains (directory_params pfx d) (pfx @ k) \<and> dict_contains (directory_params pfx d) k"
    unfolding dp by (meson add_segments_keeps)
  have b: "\<forall>j < length ?segs.
      dict_contains (directory_params pfx d) (pfx @ ''path.segments.'' @ str_nat j)
      \<and> dict_contains (directory_params pfx d) (''path.segments.'' @ str_nat j)"
    unfolding dp using add_segments_keys [of _ ?segs pfx ?p0 0] by simp
  have "\<forall>k \<in> set (path_key_names d).
      dict_contains (directory_params pfx d) (pfx @ k) \<and> dict_contains (directory_params pfx d) k"
    unfolding path_key_names_def using a b by auto
  then show ?thesis by (simp add: carries_path_keys_def directory_params_path)
qed

text \<open>
  The claim C7 as it is stated fails on a checkout with the directories \<^verbatim>\<open>a\<close>,
  \<^verbatim>\<open>a/b\<close> and \<^verbatim>\<open>a-b\<close>: \<^verbatim>\<open>sorted\<close> compares the paths part by part and emits
  \<^verbatim>\<open>a\<close>, \<^verbatim>\<open>a/b\<close>, \<^verbatim>\<open>a-b\<close>, which is not the lexicographic order of the path
  texts (there \<^verbatim>\<open>a-b\<close> comes before \<^verbatim>\<open>a/b\<close>, since \<^verbatim>\<open>-\<close> is below \<^verbatim>\<open>/\<close>).
\<close>

theorem path_texts_not_in_text_order_counterexample:
  "expand_git_directory_generator scalar_text nested_repo nested_directories_config (PStr '''')
    = Inr [[(''path'', PStr ''a''), (''path.path'', PStr ''a''),
            (''path.basename'', PStr ''a''), (''path.basenameNormalized'', PStr ''a''),
            (''path.segments.0'', PStr ''a'')],
           [(''path'', PStr ''a/b''), (''path.path'', PStr ''a/b''),
            (''path.basename'', PStr ''b''), (''path.basenameNormalized'', PStr ''b''),
            (''path.segments.0'', PStr ''a''), (''path.segments.1'', PStr ''b'')],
           [(''path'', PStr ''a-b''), (''path.path'', PStr ''a-b''),
            (''path.basename'', PStr ''a-b''), (''path.basenameNormalized'', PStr ''a-b''),
            (''path.segments.0'', PStr ''a-b'')]]
   \<and> emitted_path_texts
        [[(''path'', PStr ''a''), (''path.path'', PStr ''a''),
          (''path.basename'', PStr ''a''), (''path.basenameNormalized'', PStr ''a''),
          (''path.segments.0'', PStr ''a'')],
         [(''path'', PStr ''a/b''), (''path.path'', PStr ''a/b''),
          (''path.basename'', PStr ''b''), (''path.basenameNormalized'', PStr ''b''),
          (''path.segments.0'', PStr ''a''), (''path.segments.1'', PStr ''b'')],
         [(''path'', PStr ''a-b''), (''path.path'', PStr ''a-b''),
          (''path.basename'', PStr ''a-b''), (''path.basenameNormalized'', PStr ''a-b''),
          (''path.segments.0'', PStr ''a-b'')]]
      = [''a'', ''a/b'', ''a-b'']
   \<and> \<not> sorted [''a'', ''a/b'', ''a-b'']
   \<and> sort [''a'', ''a/b'', ''a-b''] = [''a'', ''a-b'', ''a/b'']"
  by code_simp

text \<open>
  C7, amended. When the git-directory generator returns, the surviving paths are the
  union of the matches of all include patterns minus the union of the matches of all
  exclude patterns; they are emitted, each once, in the order of \<^verbatim>\<open>sorted\<close> on paths,
  which compares two paths part by part (and not their texts character by character);
  and the parameter set of each path carries \<^verbatim>\<open>path\<close>, \<^verbatim>\<open>path.path\<close>,
  \<^verbatim>\<open>path.basename\<close>, \<^verbatim>\<open>path.basenameNormalized\<close> and one
  \<^verbatim>\<open>path.segments.<i>\<close> per \<^verbatim>\<open>/\<close>-delimited component, under the configured prefix
  and again without it, whatever the prefix is.
\<close>

theorem git_directory_generator_paths_and_keys:
  assumes "expand_git_directory_generator fmt repo config path_param_prefix = Inr out"
  shows "let survivors =
           sorted_list_of_set (spec_surviving_paths repo (configured_directories config))
         in set survivors = spec_surviving_paths repo (configured_directories config)
          \<and> sorted survivors \<and> distinct survivors
          \<and> list_all2 (carries_path_keys (key_prefix fmt path_param_prefix)) survivors out"
proof -
  let ?s = "sorted_list_of_set (spec_surviving_paths repo (configured_directories config))"
  have "out = map (directory_params (key_prefix fmt path_param_prefix)) ?s"
    using assms by (rule expand_git_directory_generator_paths)
  then have "list_all2 (carries_path_keys (key_prefix fmt path_param_prefix)) ?s out"
    by (simp add: list_all2_conv_all_nth directory_params_carries)
  moreover have "set ?s = spec_surviving_paths repo (configured_directories config)"
    using spec_surviving_paths_finite by simp
  ultimately show ?thesis by (simp add: Let_def)
qed

theorem git_directory_generator_paths_and_keys_witness:
  "expand_git_directory_generator scalar_text example_repo example_directories_config
      (PStr ''repo'')
    = Inr [[(''repo.path'', PStr ''apps/api''),
            (''repo.path.path'', PStr ''apps/api''),
            (''repo.path.basename'', PStr ''api''),
            (''repo.path.basenameNormalized'', PStr ''api''),
            (''path'', PStr ''apps/api''), (''path.path'', PStr ''apps/api''),
            (''path.basename'', PStr ''api''),
            (''path.basenameNormalized'', PStr ''api''),
            (''repo.path.segments.0'', PStr ''apps''),
            (''path.segments.0'', PStr ''apps''),
            (''repo.path.segments.1'', PStr ''api''),
            (''path.segments.1'', PStr ''api'')],
           [(''repo.path'', PStr ''apps/web''),
            (''repo.path.path'', PStr ''apps/web''),
            (''repo.path.basename'', PStr ''web''),
            (''repo.path.basenameNormalized'', PStr ''web''),
            (''path'', PStr ''apps/web''), (''path.path'', PStr ''apps/web''),
            (''path.basename'', PStr ''web''),
            (''path.basenameNormalized'', PStr ''web''),
            (''repo.path.segments.0'', PStr ''apps''),
            (''path.segments.0'', PStr ''apps''),
            (''repo.path.segments.1'', PStr ''web''),
            (''path.segments.1'', PStr ''web'')]]
   \<and> set (sorted_list_of_set
          (spec_surviving_paths example_repo (configured_directories example_directories_config)))
      = spec_surviving_paths example_repo (configured_directories example_directories_config)
   \<and> sorted_list_of_set
        (spec_surviving_paths example_repo (configured_directories example_directories_config))
      = [[''apps'', ''api''], [''apps'', ''web'']]"
proof -
  have run: "expand_git_directory_generator scalar_text example_repo example_directories_config
      (PStr ''repo'')
    = Inr [[(''repo.path'', PStr ''apps/api''),
            (''repo.path.path'', PStr ''apps/api''),
            (''repo.path.basename'', PStr ''api''),
            (''repo.path.basenameNormalized'', PStr ''api''),
            (''path'', PStr ''apps/api''), (''path.path'', PStr ''apps/api''),
            (''path.basename'', PStr ''api''),
            (''path.basenameNormalized'', PStr ''api''),
            (''repo.path.segments.0'', PStr ''apps''),
            (''path.segments.0'', PStr ''apps''),
            (''repo.path.segments.1'', PStr ''api''),
            (''path.segments.1'', PStr ''api'')],
           [(''repo.path'', PStr ''apps/web''),
            (''repo.path.path'', PStr ''apps/web''),
            (''repo.path.basename'', PStr ''web''),
            (''repo.path.basenameNormalized'', PStr ''web''),
            (''path'', PStr ''apps/web''), (''path.path'', PStr ''apps/web''),
            (''path.basename'', PStr ''web''),
            (''path.basenameNormalized'', PStr ''web''),
            (''repo.path.segments.0'', PStr ''apps''),
            (''path.segments.0'', PStr ''apps''),
            (''repo.path.segments.1'', PStr ''web''),
            (''path.segments.1'', PStr ''web'')]]"
    by code_simp
  have paths: "sorted_list_of_set
        (spec_surviving_paths example_repo (configured_directories example_directories_config))
      = [[''apps'', ''api''], [''apps'', ''web'']]"
    by code_simp
  show ?thesis
    using run paths git_directory_generator_paths_and_keys [OF run]
    by (simp only: Let_def)
qed



section \<open>Properties of the Expansion Orchestrator\<close>

lemma applications_loop_spec:
  "\<forall>p \<in> set all_params. distinct (map fst p) \<Longrightarrow>
   applications_loop fmt tmpl all_params
     = Inr (map (\<lambda>p. assemble_application (spec_substitute_fields fmt tmpl p)) all_params)"
  by (induction all_params) (simp_all add: substitute_deep_spec)

text \<open>
  The claim C3 as it is stated fails on a template that has \<^verbatim>\<open>spec\<close> and no
  \<^verbatim>\<open>metadata\<close>: the output takes the template's \<^verbatim>\<open>spec\<close> and an empty
  \<^verbatim>\<open>metadata\<close>; the template's other fields are in it nowhere, neither directly under
  the envelope nor under \<^verbatim>\<open>spec\<close>.
\<close>

theorem assemble_application_only_spec_counterexample:
  "assemble_application
     [(''spec'', PDict [(''project'', PStr ''default'')]), (''syncPolicy'', PStr ''automated'')]
   = [(''apiVersion'', PStr ''argoproj.io/v1alpha1''), (''kind'', PStr ''Application''),
      (''metadata'', PDict []), (''spec'', PDict [(''project'', PStr ''default'')])]
   \<and> assemble_application
       [(''spec'', PDict [(''project'', PStr ''default'')]), (''syncPolicy'', PStr ''automated'')]
     \<noteq> spec_assemble_application
       [(''spec'', PDict [(''project'', PStr ''default'')]), (''syncPolicy'', PStr ''automated'')]"
  by (simp add: assemble_application_def spec_assemble_application_def dict_contains_def
      dict_get_default_def)

text \<open>
  C3, amended. For every accumulated parameter set the orchestrator substitutes the
  template and assembles the document as follows. When the substituted template has
  both \<^verbatim>\<open>metadata\<close> and \<^verbatim>\<open>spec\<close>, the envelope fields are wrapped around those two
  fields as they are. When it has neither, the document is the envelope fields followed
  by the fields of the template. When it has one of the two, the document has the
  fields \<^verbatim>\<open>apiVersion\<close>, \<^verbatim>\<open>kind\<close>, \<^verbatim>\<open>metadata\<close> and \<^verbatim>\<open>spec\<close>, where
  \<^verbatim>\<open>metadata\<close> is that of the template or else an empty map, and \<^verbatim>\<open>spec\<close> is that
  of the template or else the whole substituted template.
\<close>

theorem assemble_application_cases:
  "((\<forall>p \<in> set all_params. distinct (map fst p)) \<longrightarrow>
      applications_loop fmt tmpl all_params
        = Inr (map (\<lambda>p. assemble_application (spec_substitute_fields fmt tmpl p)) all_params))
   \<and> (dict_contains app_dict ''metadata'' \<and> dict_contains app_dict ''spec'' \<longrightarrow>
        assemble_application app_dict = spec_assemble_application app_dict)
   \<and> (\<not> dict_contains app_dict ''metadata'' \<and> \<not> dict_contains app_dict ''spec'' \<longrightarrow>
        assemble_application app_dict
          = dict_update []
              ([(''apiVersion'', PStr ''argoproj.io/v1alpha1''),
                (''kind'', PStr ''Application'')] @ app_dict))
   \<and> (dict_contains app_dict ''metadata'' \<or> dict_contains app_dict ''spec'' \<longrightarrow>
        assemble_application app_dict
          = [(''apiVersion'', PStr ''argoproj.io/v1alpha1''),
             (''kind'', PStr ''Application''),
             (''metadata'', dict_get_default app_dict ''metadata'' (PDict [])),
             (''spec'', dict_get_default app_dict ''spec'' (PDict app_dict))])"
proof -
  have four: "dict_update []
            [(''apiVersion'', PStr ''argoproj.io/v1alpha1''),
             (''kind'', PStr ''Application''),
             (''metadata'', m),
             (''spec'', s)]
     = [(''apiVersion'', PStr ''argoproj.io/v1alpha1''),
             (''kind'', PStr ''Application''),
             (''metadata'', m),
             (''spec'', s)]" for m s
    by simp
  have one: "dict_contains app_dict ''metadata'' \<or> dict_contains app_dict ''spec'' \<longrightarrow>
        assemble_application app_dict
          = [(''apiVersion'', PStr ''argoproj.io/v1alpha1''),
             (''kind'', PStr ''Application''),
             (''metadata'', dict_get_default app_dict ''metadata'' (PDict [])),
             (''spec'', dict_get_default app_dict ''spec'' (PDict app_dict))]"
    unfolding assemble_application_def Let_def four by auto
  have both: "dict_contains app_dict ''metadata'' \<and> dict_contains app_dict ''spec'' \<longrightarrow>
        assemble_application app_dict = spec_assemble_application app_dict"
    using one
    by (auto simp: spec_assemble_application_def dict_contains_def dict_get_default_def)
  have neither: "\<not> dict_contains app_dict ''metadata'' \<and> \<not> dict_contains app_dict ''spec'' \<longrightarrow>
        assemble_application app_dict
          = dict_update []
              ([(''apiVersion'', PStr ''argoproj.io/v1alpha1''),
                (''kind'', PStr ''Application'')] @ app_dict)"
    unfolding assemble_application_def Let_def by simp
  have loop: "(\<forall>p \<in> set all_params. distinct (map fst p)) \<longrightarrow>
      applications_loop fmt tmpl all_params
        = Inr (map (\<lambda>p. assemble_application (spec_substitute_fields fmt tmpl p)) all_params)"
    using applications_loop_spec [of all_params fmt tmpl] by blast
  show ?thesis
    using loop both neither one by (intro conjI)
qed

theorem assemble_application_cases_witness:
  "distinct (map fst [(''name'', PStr ''web'')])
   \<and> distinct (map fst [(''name'', PStr ''api'')])
   \<and> applications_loop scalar_text
        [(''metadata'', PDict [(''name'', PStr ''{{name}}'')]),
         (''spec'', PDict [(''project'', PStr ''default'')])]
        [[(''name'', PStr ''web'')], [(''name'', PStr ''api'')]]
      = Inr [[(''apiVersion'', PStr ''argoproj.io/v1alpha1''), (''kind'', PStr ''Application''),
              (''metadata'', PDict [(''name'', PStr ''web'')]),
              (''spec'', PDict [(''project'', PStr ''default'')])],
             [(''apiVersion'', PStr ''argoproj.io/v1alpha1''), (''kind'', PStr ''Application''),
              (''metadata'', PDict [(''name'', PStr ''api'')]),
              (''spec'', PDict [(''project'', PStr ''default'')])]]
   \<and> dict_contains [(''metadata'', PDict [(''name'', PStr ''web'')])] ''metadata''
   \<and> assemble_application [(''metadata'', PDict [(''name'', PStr ''web'')])]
      = [(''apiVersion'', PStr ''argoproj.io/v1alpha1''), (''kind'', PStr ''Application''),
         (''metadata'', PDict [(''name'', PStr ''web'')]),
         (''spec'', PDict [(''metadata'', PDict [(''name'', PStr ''web'')])])]
   \<and> \<not> dict_contains [(''source'', PStr ''x'')] ''metadata''
   \<and> \<not> dict_contains [(''source'', PStr ''x'')] ''spec''
   \<and> assemble_application [(''source'', PStr ''x'')]
      = [(''apiVersion'', PStr ''argoproj.io/v1alpha1''), (''kind'', PStr ''Application''),
         (''source'', PStr ''x'')]"
proof -
  let ?ps = "[[(''name'', PStr ''web'')], [(''name'', PStr ''api'')]]"
  let ?t = "[(''metadata'', PDict [(''name'', PStr ''{{name}}'')]),
         (''spec'', PDict [(''project'', PStr ''default'')])]"
  have d: "\<forall>p \<in> set ?ps. distinct (map fst p)" by simp
  have e: "map (\<lambda>p. assemble_application (spec_substitute_fields scalar_text ?t p)) ?ps
      = [[(''apiVersion'', PStr ''argoproj.io/v1alpha1''), (''kind'', PStr ''Application''),
              (''metadata'', PDict [(''name'', PStr ''web'')]),
              (''spec'', PDict [(''project'', PStr ''default'')])],
             [(''apiVersion'', PStr ''argoproj.io/v1alpha1''), (''kind'', PStr ''Application''),
              (''metadata'', PDict [(''name'', PStr ''api'')]),
              (''spec'', PDict [(''project'', PStr ''default'')])]]"
    by code_simp
  have m: "dict_contains [(''metadata'', PDict [(''name'', PStr ''web'')])] ''metadata''"
    by (simp add: dict_contains_def)
  have n: "\<not> dict_contains [(''source'', PStr ''x'')] ''metadata''
      \<and> \<not> dict_contains [(''source'', PStr ''x'')] ''spec''"
    by (simp add: dict_contains_def)
  show ?thesis
    using d e m n
      assemble_application_cases [of ?ps scalar_text ?t "[(''metadata'', PDict [(''name'', PStr ''web'')])]"]
      assemble_application_cases [of ?ps scalar_text ?t "[(''source'', PStr ''x'')]"]
    by (simp add: dict_get_default_def)
qed


section \<open>Properties of the Matrix Generator\<close>

lemma length_concat_map_map:
  "length (concat (map (\<lambda>x. map (f x) ys) xs)) = length xs * length ys"
  by (induction xs) simp_all

lemma length_itertools_product:
  "length (itertools_product xss) = prod_list (map length xss)"
  by (induction xss) (simp_all add: length_concat_map_map)

lemma itertools_product_product_lists: "itertools_product xss = product_lists xss"
  by (induction xss) simp_all

lemma pick_Cons: "pick (xs # xss) (i # idx) = xs ! i # pick xss idx"
  by (simp add: pick_def)

lemma itertools_product_pick:
  "itertools_product xss = map (pick xss) (index_tuples xss)"
proof (induction xss)
  case Nil
  then show ?case by (simp add: index_tuples_def pick_def)
next
  case (Cons xs xss)
  have "map (pick (xs # xss)) (index_tuples (xs # xss))
      = concat (map (\<lambda>i. map (\<lambda>idx. xs ! i # pick xss idx) (index_tuples xss)) [0..<length xs])"
    by (simp add: index_tuples_def map_concat comp_def pick_Cons)
  also have "\<dots> = concat (map (\<lambda>i. map (\<lambda>combo. xs ! i # combo) (itertools_product xss))
      [0..<length xs])"
    by (simp add: Cons.IH comp_def)
  also have "\<dots> = concat (map (\<lambda>x. map (\<lambda>combo. x # combo) (itertools_product xss))
      (map (\<lambda>i. xs ! i) [0..<length xs]))"
    by (simp add: comp_def)
  also have "\<dots> = itertools_product (xs # xss)"
    by (simp add: map_nth)
  finally show ?case by simp
qed

lemma index_tuples_distinct: "distinct (index_tuples xss)"
  unfolding index_tuples_def itertools_product_product_lists
  by (rule distinct_product_lists) auto

lemma index_tuples_set:
  "set (index_tuples xss) = {idx. list_all2 (\<lambda>i xs. i < length xs) idx xss}"
proof -
  have "list_all2 (\<lambda>i ys. i \<in> set ys) idx (map (\<lambda>xs. [0..<length xs]) xss)
      \<longleftrightarrow> list_all2 (\<lambda>i xs. i < length xs) idx xss" for idx
    by (simp add: list_all2_map2)
  then show ?thesis
    by (simp add: index_tuples_def itertools_product_product_lists product_lists_set)
qed

lemma map_of_dict_update_distinct:
  "distinct (map fst p) \<Longrightarrow>
   map_of (dict_update d p) k = (case map_of p k of Some v \<Rightarrow> Some v | None \<Rightarrow> map_of d k)"
proof (induction p arbitrary: d)
  case Nil
  then show ?case by simp
next
  case (Cons kv p)
  obtain k' v' where kv: "kv = (k', v')" by (cases kv)
  have d: "distinct (map fst p)" and fresh: "k' \<notin> fst ` set p" using Cons.prems kv by auto
  have "map_of p k' = None" using fresh by (simp add: map_of_eq_None_iff)
  then show ?case
    using Cons.IH [OF d, of "dict_setitem d k' v'"] kv
    by (auto simp: map_of_dict_setitem split: option.splits)
qed

lemma merge_combo_loop_later_wins:
  "\<forall>p \<in> set combo. distinct (map fst p) \<Longrightarrow>
   dict_get (merge_combo_loop merged combo) k
     = (case spec_later_wins combo k of Some v \<Rightarrow> Some v | None \<Rightarrow> dict_get merged k)"
proof (induction combo arbitrary: merged)
  case Nil
  then show ?case by simp
next
  case (Cons p combo)
  then have "dict_get (merge_combo_loop (dict_update merged p) combo) k
     = (case spec_later_wins combo k of Some v \<Rightarrow> Some v
        | None \<Rightarrow> dict_get (dict_update merged p) k)"
    by simp
  moreover have "dict_get (dict_update merged p) k
      = (case dict_get p k of Some v \<Rightarrow> Some v | None \<Rightarrow> dict_get merged k)"
    using Cons.prems by (simp add: dict_get_def map_of_dict_update_distinct split: option.splits)
  ultimately show ?case by (simp split: option.splits)
qed

lemma expand_children_length:
  "expand_children fmt env children = (diags, Inr child_params) \<Longrightarrow>
   length child_params = length children"
proof (induction children arbitrary: diags child_params)
  case Nil
  then show ?case by simp
next
  case (Cons child children)
  then show ?case
    by (auto split: sum.splits prod.splits)
qed

text \<open>
  C1. A matrix generator whose \<^verbatim>\<open>generators\<close> field lists two or more children, all of
  which expand, returns one parameter set per tuple of the cartesian product of the
  children's result sequences: their number is the product of the children's sizes,
  every choice of one position per child occurs exactly once, and each parameter set is
  the merge of its tuple from left to right, so that on a key that several members have
  the value of the last one stands.
\<close>

theorem matrix_generator_cartesian_product:
  assumes "dict_get_default cfg ''generators'' (PList []) = PList children"
    and "2 \<le> length children"
    and "expand_children fmt env children = (diags, Inr child_params)"
  shows "expand_matrix_generator fmt env (PDict cfg)
      = (diags, Inr (map (\<lambda>idx. merge_combo_loop [] (pick child_params idx))
                       (index_tuples child_params)))
    \<and> length child_params = length children
    \<and> length (index_tuples child_params) = prod_list (map length child_params)
    \<and> distinct (index_tuples child_params)
    \<and> set (index_tuples child_params) = {idx. list_all2 (\<lambda>i xs. i < length xs) idx child_params}
    \<and> (\<forall>combo k. (\<forall>p \<in> set combo. distinct (map fst p)) \<longrightarrow>
          dict_get (merge_combo_loop [] combo) k = spec_later_wins combo k)"
proof -
  have "expand_matrix_generator fmt env (PDict cfg) = (diags, Inr (matrix_combinations child_params))"
    using assms by (simp add: expand_matrix_generator.simps)
  moreover have "matrix_combinations child_params
      = map (\<lambda>idx. merge_combo_loop [] (pick child_params idx)) (index_tuples child_params)"
    by (simp add: matrix_combinations_def itertools_product_pick comp_def)
  moreover have "length (index_tuples child_params) = prod_list (map length child_params)"
    using length_itertools_product [of child_params]
    by (simp add: itertools_product_pick)
  moreover have "\<forall>combo k. (\<forall>p \<in> set combo. distinct (map fst p)) \<longrightarrow>
          dict_get (merge_combo_loop [] combo) k = spec_later_wins combo k"
  proof (intro allI impI)
    fix combo :: "pydict list" and k
    assume "\<forall>p \<in> set combo. distinct (map fst p)"
    from merge_combo_loop_later_wins [OF this, of "[]" k]
    show "dict_get (merge_combo_loop [] combo) k = spec_later_wins combo k"
      by (simp add: dict_get_def split: option.splits)
  qed
  ultimately show ?thesis
    using expand_children_length [OF assms(3)] index_tuples_distinct [of child_params]
      index_tuples_set [of child_params]
    by simp
qed

theorem matrix_generator_cartesian_product_witness:
  "dict_get_default example_matrix_config ''generators'' (PList [])
      = PList [example_env_list, example_app_list]
   \<and> 2 \<le> length [example_env_list, example_app_list]
   \<and> expand_children scalar_text example_env [example_env_list, example_app_list]
      = ([], Inr [[[(''env'', PStr ''dev''), (''tier'', PStr ''low'')],
                   [(''env'', PStr ''staging''), (''tier'', PStr ''low'')]],
                  [[(''app'', PStr ''frontend'')],
                   [(''app'', PStr ''backend''), (''tier'', PStr ''high'')]]])
   \<and> expand_matrix_generator scalar_text example_env (PDict example_matrix_config)
      = ([], Inr [[(''env'', PStr ''dev''), (''tier'', PStr ''low''), (''app'', PStr ''frontend'')],
                  [(''env'', PStr ''dev''), (''tier'', PStr ''high''), (''app'', PStr ''backend'')],
                  [(''env'', PStr ''staging''), (''tier'', PStr ''low''), (''app'', PStr ''frontend'')],
                  [(''env'', PStr ''staging''), (''tier'', PStr ''high''), (''app'', PStr ''backend'')]])"
proof -
  let ?child_params = "[[[(''env'', PStr ''dev''), (''tier'', PStr ''low'')],
                   [(''env'', PStr ''staging''), (''tier'', PStr ''low'')]],
                  [[(''app'', PStr ''frontend'')],
                   [(''app'', PStr ''backend''), (''tier'', PStr ''high'')]]]"
  have g: "dict_get_default example_matrix_config ''generators'' (PList [])
      = PList [example_env_list, example_app_list]"
    by (simp add: example_matrix_config_def dict_get_default_def)
  have n: "2 \<le> length [example_env_list, example_app_list]" by simp
  have c: "expand_children scalar_text example_env [example_env_list, example_app_list]
      = ([], Inr ?child_params)"
    by code_simp
  have e: "map (\<lambda>idx. merge_combo_loop [] (pick ?child_params idx)) (index_tuples ?child_params)
      = [[(''env'', PStr ''dev''), (''tier'', PStr ''low''), (''app'', PStr ''frontend'')],
         [(''env'', PStr ''dev''), (''tier'', PStr ''high''), (''app'', PStr ''backend'')],
         [(''env'', PStr ''staging''), (''tier'', PStr ''low''), (''app'', PStr ''frontend'')],
         [(''env'', PStr ''staging''), (''tier'', PStr ''high''), (''app'', PStr ''backend'')]]"
    by code_simp
  show ?thesis
    using g n c e matrix_generator_cartesian_product [OF g n c] by simp
qed


section \<open>Properties of the soft-fail inputs\<close>

lemma unknown_variant_empty:
  "unknown_variant generator \<Longrightarrow>
   expand_generator fmt env generator
     = ([UnsupportedGeneratorType (map fst generator)], Inr [])"
  by (simp add: unknown_variant_def expand_generator.simps)

lemma matrix_too_few_children:
  "py_len (dict_get_default cfg ''generators'' (PList [])) = Inr n \<Longrightarrow> n < 2 \<Longrightarrow>
   expand_matrix_generator fmt env (PDict cfg) = ([MatrixRequiresTwoChildren], Inr [])"
  by (simp add: expand_matrix_generator.simps)

lemma fails_to_parse_contribution:
  "fails_to_parse env repo file_path \<Longrightarrow>
   file_contribution env repo pfx file_path = ([FailedToParseFile file_path], Inr [])"
  unfolding fails_to_parse_def file_contribution_def
  by (auto split: read_result.splits parse_result.splits pyval.splits)

lemma parses_to_non_record_contribution:
  "parses_to_non_record env repo file_path \<Longrightarrow>
   file_contribution env repo pfx file_path = ([], Inr [])"
  unfolding parses_to_non_record_def file_contribution_def
  by (auto split: read_result.splits parse_result.splits pyval.splits)

lemma expand_all_generators_skip:
  assumes "expand_generator fmt env generator = (diags, Inr [])"
  shows "snd (expand_all_generators fmt env (before @ PDict generator # after))
     = snd (expand_all_generators fmt env (before @ after))"
proof (induction before)
  case Nil
  then show ?case using assms by (simp split: prod.splits sum.splits)
next
  case (Cons g before)
  show ?case
  proof (cases "as_dict g")
    case (Inl err)
    then show ?thesis by simp
  next
    case (Inr d)
    obtain ds r where e: "expand_generator fmt env d = (ds, r)" by (cases "expand_generator fmt env d")
    obtain ds1 r1 where a: "expand_all_generators fmt env (before @ PDict generator # after) = (ds1, r1)"
      by (cases "expand_all_generators fmt env (before @ PDict generator # after)")
    obtain ds2 r2 where b: "expand_all_generators fmt env (before @ after) = (ds2, r2)"
      by (cases "expand_all_generators fmt env (before @ after)")
    have "r1 = r2" using Cons.IH a b by simp
    then show ?thesis using Inr e a b by (simp split: sum.splits)
  qed
qed

lemma matched_files_loop_skip:
  assumes "file_contribution env repo pfx file_path = (diags, Inr [])"
  shows "snd (matched_files_loop env repo pfx (before @ file_path # after))
     = snd (matched_files_loop env repo pfx (before @ after))"
proof (induction before)
  case Nil
  then show ?case using assms by (simp split: prod.splits sum.splits)
next
  case (Cons f before)
  obtain ds r where e: "file_contribution env repo pfx f = (ds, r)"
    by (cases "file_contribution env repo pfx f")
  obtain ds1 r1 where a: "matched_files_loop env repo pfx (before @ file_path # after) = (ds1, r1)"
    by (cases "matched_files_loop env repo pfx (before @ file_path # after)")
  obtain ds2 r2 where b: "matched_files_loop env repo pfx (before @ after) = (ds2, r2)"
    by (cases "matched_files_loop env repo pfx (before @ after)")
  have "r1 = r2" using Cons.IH a b by simp
  then show ?case using e a b by (simp split: sum.splits)
qed

lemma undecodable_file_raises:
  "read_text repo file_path = BadEncoding \<Longrightarrow>
   file_contribution env repo pfx file_path = ([], Inl UnicodeDecodeError)"
  by (simp add: file_contribution_def)

text \<open>
  The claim C6 as it is stated fails on a file that both loaders read as a value that
  is no record (here the JSON list \<^verbatim>\<open>[1, 2]\<close>): the file contributes no parameter
  set, and no diagnostic is logged.
\<close>

theorem non_record_file_no_diagnostic_counterexample:
  "parses_to_non_record example_env example_repo [''config'', ''list.json'']
   \<and> expand_generator scalar_text example_env
        [(''git'', PDict [(''repoURL'', PStr ''https://example.com/repo.git''),
                          (''files'', PList [PDict [(''path'', PStr ''config/list.json'')]])])]
      = ([], Inr [])"
  by code_simp

text \<open>
  C6, amended. A generator configuration of an unknown variant and a matrix generator
  with fewer than two children return no parameter set and one diagnostic. A file of
  the file generator that cannot be read, or whose text is no YAML, or whose YAML value
  is no record and whose text is no JSON, contributes no parameter set and one
  diagnostic; a file that both loaders read as a value that is no record contributes no
  parameter set and no diagnostic. None of them raises, and a generator or a file that
  contributes nothing leaves the result of the others as it is without it.
\<close>

theorem soft_fail_contributes_nothing:
  "(unknown_variant generator \<longrightarrow>
      expand_generator fmt env generator
        = ([UnsupportedGeneratorType (map fst generator)], Inr []))
   \<and> (py_len (dict_get_default cfg ''generators'' (PList [])) = Inr n \<and> n < 2 \<longrightarrow>
        expand_matrix_generator fmt env (PDict cfg) = ([MatrixRequiresTwoChildren], Inr []))
   \<and> (fails_to_parse env repo bad_file \<longrightarrow>
        file_contribution env repo pfx bad_file = ([FailedToParseFile bad_file], Inr []))
   \<and> (parses_to_non_record env repo other_file \<longrightarrow>
        file_contribution env repo pfx other_file = ([], Inr []))
   \<and> (expand_generator fmt env skipped = (diags, Inr []) \<longrightarrow>
        snd (expand_all_generators fmt env (before @ PDict skipped # after))
          = snd (expand_all_generators fmt env (before @ after)))
   \<and> (file_contribution env repo pfx skipped_file = (file_diags, Inr []) \<longrightarrow>
        snd (matched_files_loop env repo pfx (files_before @ skipped_file # files_after))
          = snd (matched_files_loop env repo pfx (files_before @ files_after)))"
  using unknown_variant_empty [of generator fmt env]
    matrix_too_few_children [of cfg n fmt env]
    fails_to_parse_contribution [of env repo bad_file pfx]
    parses_to_non_record_contribution [of env repo other_file pfx]
    expand_all_generators_skip [of fmt env skipped diags before after]
    matched_files_loop_skip [of env repo pfx skipped_file file_diags files_before files_after]
  by blast

theorem soft_fail_contributes_nothing_witness:
  "unknown_variant [(''plugin'', PDict [])]
   \<and> expand_generator scalar_text example_env [(''plugin'', PDict [])]
      = ([UnsupportedGeneratorType [''plugin'']], Inr [])
   \<and> py_len (dict_get_default [(''generators'', PList [example_env_list])] ''generators'' (PList []))
      = Inr 1
   \<and> expand_matrix_generator scalar_text example_env
        (PDict [(''generators'', PList [example_env_list])])
      = ([MatrixRequiresTwoChildren], Inr [])
   \<and> fails_to_parse example_env example_repo [''config'', ''broken.json'']
   \<and> file_contribution example_env example_repo '''' [''config'', ''broken.json'']
      = ([FailedToParseFile [''config'', ''broken.json'']], Inr [])
   \<and> parses_to_non_record example_env example_repo [''config'', ''list.json'']
   \<and> file_contribution example_env example_repo '''' [''config'', ''list.json''] = ([], Inr [])
   \<and> snd (expand_all_generators scalar_text example_env
          ([example_env_list] @ PDict [(''plugin'', PDict [])] # [example_app_list]))
      = snd (expand_all_generators scalar_text example_env ([example_env_list] @ [example_app_list]))
   \<and> snd (matched_files_loop example_env example_repo ''''
          ([[''config'', ''dev.json'']] @ [''config'', ''broken.json''] # []))
      = snd (matched_files_loop example_env example_repo '''' ([[''config'', ''dev.json'']] @ []))"
proof -
  have u: "unknown_variant [(''plugin'', PDict [])]"
    by (simp add: unknown_variant_def dict_get_def)
  have m: "py_len (dict_get_default [(''generators'', PList [example_env_list])] ''generators''
      (PList [])) = Inr 1 \<and> (1::nat) < 2"
    by (simp add: dict_get_default_def)
  have f: "fails_to_parse example_env example_repo [''config'', ''broken.json'']"
    by code_simp
  have p: "parses_to_non_record example_env example_repo [''config'', ''list.json'']"
    by code_simp
  have g: "expand_generator scalar_text example_env [(''plugin'', PDict [])]
      = ([UnsupportedGeneratorType [''plugin'']], Inr [])"
    using unknown_variant_empty [OF u] by simp
  have c: "file_contribution example_env example_repo '''' [''config'', ''broken.json'']
      = ([FailedToParseFile [''config'', ''broken.json'']], Inr [])"
    using f by (rule fails_to_parse_contribution)
  show ?thesis
    using u m f p g c
      soft_fail_contributes_nothing [of "[(''plugin'', PDict [])]" scalar_text example_env
        "[(''generators'', PList [example_env_list])]" 1 example_repo
        "[''config'', ''broken.json'']" "''''" "[''config'', ''list.json'']"
        "[(''plugin'', PDict [])]" "[UnsupportedGeneratorType [''plugin'']]"
        "[example_env_list]" "[example_app_list]"
        "[''config'', ''broken.json'']" "[FailedToParseFile [''config'', ''broken.json'']]"
        "[[''config'', ''dev.json'']]" "[]"]
    by simp
qed


section \<open>Properties of the Merge Generator\<close>

lemma merge_key_texts_spec:
  "\<forall>k \<in> set ks. hashable k \<Longrightarrow>
   merge_key_texts fmt params ks = Inr (map (spec_param_text fmt params) ks)"
proof (induction ks)
  case Nil
  then show ?case by simp
next
  case (Cons k ks)
  then have "hashable k" by simp
  then obtain found where "params_get params k = Inr found"
    and "py_str fmt found = spec_param_text fmt params k"
    using params_get_text by blast
  then show ?case using Cons by simp
qed

lemma make_merge_key_spec:
  "py_iter merge_keys = Inr ks \<Longrightarrow> \<forall>k \<in> set ks. hashable k \<Longrightarrow>
   make_merge_key fmt params merge_keys = Inr (spec_merge_key fmt ks params)"
  by (simp add: make_merge_key_def merge_key_texts_spec spec_merge_key_def)

lemma keys_dict_setitem:
  "map fst (dict_setitem rm k v) = (if k \<in> fst ` set rm then map fst rm else map fst rm @ [k])"
  by (induction rm k v rule: dict_setitem.induct) auto

lemma first_occurrences_set: "set (first_occurrences xs) = set xs"
  by (induction xs) auto

lemma first_occurrences_distinct: "distinct (first_occurrences xs)"
  by (induction xs) (simp_all add: distinct_removeAll)

lemma first_occurrences_length: "length (first_occurrences xs) \<le> length xs"
proof (induction xs)
  case Nil
  then show ?case by simp
next
  case (Cons x xs)
  have "length (removeAll x (first_occurrences xs)) \<le> length (first_occurrences xs)"
    by (simp add: removeAll_filter_not_eq)
  from this Cons.IH have "length (removeAll x (first_occurrences xs)) \<le> length xs"
    by (rule le_trans)
  then show ?case by simp
qed

lemma seed_loop_spec:
  assumes "py_iter merge_keys = Inr ks" and "\<forall>k \<in> set ks. hashable k"
  shows "\<exists>r. seed_loop fmt merge_keys ps rm = Inr r
     \<and> map fst r = map fst rm
          @ filter (\<lambda>k. k \<notin> fst ` set rm) (first_occurrences (map (spec_merge_key fmt ks) ps))
     \<and> (\<forall>k. map_of r k
          = (case filter (\<lambda>p. spec_merge_key fmt ks p = k) ps of
               [] \<Rightarrow> map_of rm k | q # qs \<Rightarrow> Some (last (q # qs))))"
proof (induction ps arbitrary: rm)
  case Nil
  then show ?case by simp
next
  case (Cons p ps)
  let ?key = "spec_merge_key fmt ks"
  let ?rm = "dict_setitem rm (?key p) p"
  obtain r where r: "seed_loop fmt merge_keys ps ?rm = Inr r"
    and keys: "map fst r = map fst ?rm
          @ filter (\<lambda>k. k \<notin> fst ` set ?rm) (first_occurrences (map ?key ps))"
    and vals: "\<And>k. map_of r k
          = (case filter (\<lambda>p. ?key p = k) ps of
               [] \<Rightarrow> map_of ?rm k | q # qs \<Rightarrow> Some (last (q # qs)))"
    using Cons [of ?rm] by blast
  have run: "seed_loop fmt merge_keys (p # ps) rm = Inr r"
    using r by (simp add: make_merge_key_spec [OF assms])
  have set_rm: "fst ` set ?rm = insert (?key p) (fst ` set rm)"
    using keys_dict_setitem [of rm "?key p" p]
    by (metis (no_types, lifting) insert_absorb list.set_map list.simps(15) rotate1.simps(2)
        set_append set_rotate1)
  have k: "map fst r = map fst rm
          @ filter (\<lambda>k. k \<notin> fst ` set rm) (first_occurrences (map ?key (p # ps)))"
  proof (cases "?key p \<in> fst ` set rm")
    case True
    then have "map fst ?rm = map fst rm" and "fst ` set ?rm = fst ` set rm"
      using set_rm by (auto simp: keys_dict_setitem)
    moreover have "filter (\<lambda>k. k \<notin> fst ` set rm) (removeAll (?key p) xs)
        = filter (\<lambda>k. k \<notin> fst ` set rm) xs" for xs
      using True by (induction xs) auto
    ultimately show ?thesis using keys True by simp
  next
    case False
    then have m: "map fst ?rm = map fst rm @ [?key p]"
      by (simp add: keys_dict_setitem)
    have "filter (\<lambda>k. k \<notin> insert (?key p) (fst ` set rm)) xs
        = filter (\<lambda>k. k \<notin> fst ` set rm) (removeAll (?key p) xs)" for xs
      by (induction xs) auto
    then show ?thesis using keys m set_rm False by simp
  qed
  have v: "map_of r k
          = (case filter (\<lambda>q. ?key q = k) (p # ps) of
               [] \<Rightarrow> map_of rm k | q # qs \<Rightarrow> Some (last (q # qs)))" for k
    using vals [of k] by (auto simp: map_of_dict_setitem split: list.splits)
  show ?case using run k v by blast
qed

lemma overlay_loop_spec:
  assumes "py_iter merge_keys = Inr ks" and "\<forall>k \<in> set ks. hashable k"
  shows "\<exists>r. overlay_loop fmt merge_keys qs rm = Inr r
     \<and> map fst r = map fst rm
     \<and> (\<forall>k. map_of r k
          = map_option (\<lambda>e. foldl dict_update e (filter (\<lambda>q. spec_merge_key fmt ks q = k) qs))
              (map_of rm k))"
proof (induction qs arbitrary: rm)
  case Nil
  then show ?case by (simp add: option.map_ident)
next
  case (Cons q qs)
  let ?key = "spec_merge_key fmt ks"
  show ?case
  proof (cases "map_of rm (?key q)")
    case None
    obtain r where r: "overlay_loop fmt merge_keys qs rm = Inr r"
      and keys: "map fst r = map fst rm"
      and vals: "\<And>k. map_of r k
          = map_option (\<lambda>e. foldl dict_update e (filter (\<lambda>q. ?key q = k) qs)) (map_of rm k)"
      using Cons [of rm] by blast
    have "overlay_loop fmt merge_keys (q # qs) rm = Inr r"
      using r None by (simp add: make_merge_key_spec [OF assms])
    moreover have "map_of r k
          = map_option (\<lambda>e. foldl dict_update e (filter (\<lambda>q. ?key q = k) (q # qs))) (map_of rm k)"
      for k
      using vals [of k] None by auto
    ultimately show ?thesis using keys by blast
  next
    case (Some existing)
    let ?rm = "dict_setitem rm (?key q) (dict_update existing q)"
    obtain r where r: "overlay_loop fmt merge_keys qs ?rm = Inr r"
      and keys: "map fst r = map fst ?rm"
      and vals: "\<And>k. map_of r k
          = map_option (\<lambda>e. foldl dict_update e (filter (\<lambda>q. ?key q = k) qs)) (map_of ?rm k)"
      using Cons [of ?rm] by blast
    have "(?key q, existing) \<in> set rm" using Some by (rule map_of_SomeD)
    then have "?key q \<in> fst ` set rm" by force
    then have same: "map fst ?rm = map fst rm" by (simp add: keys_dict_setitem)
    have "overlay_loop fmt merge_keys (q # qs) rm = Inr r"
      using r Some by (simp add: make_merge_key_spec [OF assms])
    moreover have "map_of r k
          = map_option (\<lambda>e. foldl dict_update e (filter (\<lambda>q. ?key q = k) (q # qs))) (map_of rm k)"
      for k
      using vals [of k] Some by (auto simp: map_of_dict_setitem)
    ultimately show ?thesis using keys same by auto
  qed
qed

lemma overlay_lists_spec:
  assumes "py_iter merge_keys = Inr ks" and "\<forall>k \<in> set ks. hashable k"
  shows "\<exists>r. overlay_lists fmt merge_keys others rm = Inr r
     \<and> map fst r = map fst rm
     \<and> (\<forall>k. map_of r k
          = map_option (\<lambda>e. foldl dict_update e
                (filter (\<lambda>q. spec_merge_key fmt ks q = k) (concat others)))
              (map_of rm k))"
proof (induction others arbitrary: rm)
  case Nil
  then show ?case by (simp add: option.map_ident)
next
  case (Cons qs others)
  let ?key = "spec_merge_key fmt ks"
  obtain r1 where r1: "overlay_loop fmt merge_keys qs rm = Inr r1"
    and k1: "map fst r1 = map fst rm"
    and v1: "\<And>k. map_of r1 k
          = map_option (\<lambda>e. foldl dict_update e (filter (\<lambda>q. ?key q = k) qs)) (map_of rm k)"
    using overlay_loop_spec [OF assms, of fmt qs rm] by blast
  obtain r where r: "overlay_lists fmt merge_keys others r1 = Inr r"
    and k: "map fst r = map fst r1"
    and v: "\<And>k. map_of r k
          = map_option (\<lambda>e. foldl dict_update e (filter (\<lambda>q. ?key q = k) (concat others)))
              (map_of r1 k)"
    using Cons [of r1] by blast
  have "overlay_lists fmt merge_keys (qs # others) rm = Inr r" using r1 r by simp
  moreover have "map_of r k
          = map_option (\<lambda>e. foldl dict_update e (filter (\<lambda>q. ?key q = k) (concat (qs # others))))
              (map_of rm k)" for k
    by (simp add: v [of k] v1 [of k] option.map_comp comp_def)
  ultimately show ?case using k k1 by auto
qed

lemma values_by_keys:
  "distinct (map fst rm) \<Longrightarrow> \<forall>k \<in> fst ` set rm. map_of rm k = Some (f k) \<Longrightarrow>
   map snd rm = map f (map fst rm)"
proof (induction rm)
  case Nil
  then show ?case by simp
next
  case (Cons kv rm)
  have "\<forall>k \<in> fst ` set rm. map_of rm k = Some (f k)"
  proof
    fix k assume k: "k \<in> fst ` set rm"
    have "fst kv \<notin> fst ` set rm" using Cons.prems(1) by simp
    then have "k \<noteq> fst kv" using k by blast
    then show "map_of rm k = Some (f k)" using Cons.prems(2) k by (cases kv) auto
  qed
  then have "map snd rm = map f (map fst rm)" using Cons by simp
  moreover have "snd kv = f (fst kv)" using Cons.prems(2) by (cases kv) auto
  ultimately show ?case by simp
qed

lemma merge_children_spec:
  assumes "py_iter merge_keys = Inr ks" and "\<forall>k \<in> set ks. hashable k"
  shows "merge_children fmt merge_keys (first_params # others)
     = Inr (spec_merge fmt ks first_params (concat others))"
proof -
  let ?key = "spec_merge_key fmt ks"
  obtain seeded where s: "seed_loop fmt merge_keys first_params [] = Inr seeded"
    and sk: "map fst seeded = first_occurrences (map ?key first_params)"
    and sv: "\<And>k. map_of seeded k
          = (case filter (\<lambda>p. ?key p = k) first_params of
               [] \<Rightarrow> map_of [] k | q # qs \<Rightarrow> Some (last (q # qs)))"
    using seed_loop_spec [OF assms, of fmt first_params "[]"] by auto
  obtain r where r: "overlay_lists fmt merge_keys others seeded = Inr r"
    and rk: "map fst r = map fst seeded"
    and rv: "\<And>k. map_of r k
          = map_option (\<lambda>e. foldl dict_update e (filter (\<lambda>q. ?key q = k) (concat others)))
              (map_of seeded k)"
    using overlay_lists_spec [OF assms, of fmt others seeded] by blast
  have d: "distinct (map fst r)" using rk sk by (simp add: first_occurrences_distinct)
  have "\<forall>k \<in> fst ` set r. map_of r k = Some (spec_merged_entry fmt ks first_params (concat others) k)"
  proof
    fix k assume "k \<in> fst ` set r"
    then have "k \<in> set (map fst r)" by simp
    then have "k \<in> set (map ?key first_params)"
      using rk sk first_occurrences_set [of "map ?key first_params"] by simp
    then have "filter (\<lambda>p. ?key p = k) first_params \<noteq> []"
      by (auto simp: filter_empty_conv)
    then have "map_of seeded k = Some (last (filter (\<lambda>p. ?key p = k) first_params))"
      using sv [of k] by (auto split: list.splits)
    then show "map_of r k = Some (spec_merged_entry fmt ks first_params (concat others) k)"
      using rv [of k] by (simp add: spec_merged_entry_def)
  qed
  then have "map snd r = map (spec_merged_entry fmt ks first_params (concat others)) (map fst r)"
    using d by (rule values_by_keys [rotated])
  then have "map snd r = spec_merge fmt ks first_params (concat others)"
    using rk sk by (simp add: spec_merge_def)
  then show ?thesis using s r by simp
qed

lemma spec_merge_length:
  "length (spec_merge fmt ks first_params later) = card (spec_merge_key fmt ks ` set first_params)"
proof -
  have "length (first_occurrences (map (spec_merge_key fmt ks) first_params))
      = card (set (first_occurrences (map (spec_merge_key fmt ks) first_params)))"
    using first_occurrences_distinct by (metis distinct_card)
  then show ?thesis by (simp add: spec_merge_def first_occurrences_set)
qed

lemma spec_merge_discards:
  assumes "spec_merge_key fmt ks q \<notin> spec_merge_key fmt ks ` set first_params"
  shows "spec_merge fmt ks first_params (later @ q # later')
     = spec_merge fmt ks first_params (later @ later')"
proof -
  have "spec_merged_entry fmt ks first_params (later @ q # later') k
      = spec_merged_entry fmt ks first_params (later @ later') k"
    if "k \<in> set (first_occurrences (map (spec_merge_key fmt ks) first_params))" for k
  proof -
    have "k \<in> spec_merge_key fmt ks ` set first_params"
      using that by (simp add: first_occurrences_set)
    then have "spec_merge_key fmt ks q \<noteq> k" using assms by auto
    then show ?thesis by (simp add: spec_merged_entry_def)
  qed
  then show ?thesis by (simp add: spec_merge_def)
qed

text \<open>
  C2. For merge keys that can be iterated and hashed, the merge key of a parameter set
  is the texts of the merge-key fields (the empty string for an absent field) joined by
  \<^verbatim>\<open>|\<close>; the result is seeded from the first child's parameter sets, keyed by merge
  key; a parameter set of a later child whose key exists is laid over the entry, its
  fields winning; one whose key does not exist is discarded; so the output is never
  longer than the first child's output.
\<close>

theorem merge_generator_seeded_and_bounded:
  assumes "py_iter merge_keys = Inr ks" and "\<forall>k \<in> set ks. hashable k"
  shows "make_merge_key fmt params merge_keys
      = Inr (join_with ''|'' (map (spec_param_text fmt params) ks))
    \<and> merge_children fmt merge_keys (first_params # others)
      = Inr (spec_merge fmt ks first_params (concat others))
    \<and> length (spec_merge fmt ks first_params (concat others)) \<le> length first_params
    \<and> (spec_merge_key fmt ks q \<notin> spec_merge_key fmt ks ` set first_params \<longrightarrow>
         spec_merge fmt ks first_params (later @ q # later')
           = spec_merge fmt ks first_params (later @ later'))
    \<and> (distinct (map fst q) \<longrightarrow>
         dict_get (dict_update existing q) k
           = (case dict_get q k of Some v \<Rightarrow> Some v | None \<Rightarrow> dict_get existing k))
    \<and> (dict_get_default cfg ''generators'' (PList []) = PList children \<and> children \<noteq> []
        \<and> dict_get_default cfg ''mergeKeys'' (PList []) = merge_keys
        \<and> expand_children fmt env children = (diags, Inr (first_params # others)) \<longrightarrow>
         expand_merge_generator fmt env (PDict cfg)
           = (diags, Inr (spec_merge fmt ks first_params (concat others))))"
proof -
  have key: "make_merge_key fmt params merge_keys
      = Inr (join_with ''|'' (map (spec_param_text fmt params) ks))"
    using make_merge_key_spec [OF assms, of fmt params] by (simp add: spec_merge_key_def)
  have merge: "merge_children fmt merge_keys (first_params # others)
      = Inr (spec_merge fmt ks first_params (concat others))"
    using assms by (rule merge_children_spec)
  have bound: "length (spec_merge fmt ks first_params (concat others)) \<le> length first_params"
    using first_occurrences_length [of "map (spec_merge_key fmt ks) first_params"]
    by (simp add: spec_merge_def)
  have discard: "spec_merge_key fmt ks q \<notin> spec_merge_key fmt ks ` set first_params \<longrightarrow>
         spec_merge fmt ks first_params (later @ q # later')
           = spec_merge fmt ks first_params (later @ later')"
    using spec_merge_discards [of fmt ks q first_params later later'] by blast
  have overlay: "distinct (map fst q) \<longrightarrow>
         dict_get (dict_update existing q) k
           = (case dict_get q k of Some v \<Rightarrow> Some v | None \<Rightarrow> dict_get existing k)"
    by (simp add: dict_get_def map_of_dict_update_distinct split: option.splits)
  have run: "dict_get_default cfg ''generators'' (PList []) = PList children \<and> children \<noteq> []
        \<and> dict_get_default cfg ''mergeKeys'' (PList []) = merge_keys
        \<and> expand_children fmt env children = (diags, Inr (first_params # others)) \<longrightarrow>
         expand_merge_generator fmt env (PDict cfg)
           = (diags, Inr (spec_merge fmt ks first_params (concat others)))"
    using merge by (auto simp: expand_merge_generator.simps)
  show ?thesis using key merge bound discard overlay run by (intro conjI)
qed

theorem merge_generator_seeded_and_bounded_witness:
  "py_iter (PList [PStr ''name'']) = Inr [PStr ''name'']
   \<and> hashable (PStr ''name'')
   \<and> make_merge_key scalar_text [(''replicas'', PInt 1)] (PList [PStr ''name'']) = Inr ''''
   \<and> spec_merge_key scalar_text [PStr ''name''] [(''name'', PStr ''app9''), (''env'', PStr ''dev'')]
       \<notin> spec_merge_key scalar_text [PStr ''name'']
           ` set [[(''name'', PStr ''app1''), (''replicas'', PInt 1)],
                  [(''name'', PStr ''app2''), (''replicas'', PInt 2)],
                  [(''name'', PStr ''app1''), (''replicas'', PInt 3)]]
   \<and> distinct (map fst [(''name'', PStr ''app9''), (''env'', PStr ''dev'')])
   \<and> expand_children scalar_text example_env
        [PDict [(''list'', PDict [(''elements'', PList
            [PDict [(''name'', PStr ''app1''), (''replicas'', PInt 1)],
             PDict [(''name'', PStr ''app2''), (''replicas'', PInt 2)],
             PDict [(''name'', PStr ''app1''), (''replicas'', PInt 3)]])])],
          PDict [(''list'', PDict [(''elements'', PList
            [PDict [(''name'', PStr ''app1''), (''env'', PStr ''prod'')],
             PDict [(''name'', PStr ''app9''), (''env'', PStr ''dev'')]])])]]
      = ([], Inr [[[(''name'', PStr ''app1''), (''replicas'', PInt 1)],
                   [(''name'', PStr ''app2''), (''replicas'', PInt 2)],
                   [(''name'', PStr ''app1''), (''replicas'', PInt 3)]],
                  [[(''name'', PStr ''app1''), (''env'', PStr ''prod'')],
                   [(''name'', PStr ''app9''), (''env'', PStr ''dev'')]]])
   \<and> expand_merge_generator scalar_text example_env (PDict example_merge_config)
      = ([], Inr [[(''name'', PStr ''app1''), (''replicas'', PInt 3), (''env'', PStr ''prod'')],
                  [(''name'', PStr ''app2''), (''replicas'', PInt 2)]])"
proof -
  let ?first = "[[(''name'', PStr ''app1''), (''replicas'', PInt 1)],
                   [(''name'', PStr ''app2''), (''replicas'', PInt 2)],
                   [(''name'', PStr ''app1''), (''replicas'', PInt 3)]]"
  let ?second = "[[(''name'', PStr ''app1''), (''env'', PStr ''prod'')],
                   [(''name'', PStr ''app9''), (''env'', PStr ''dev'')]]"
  let ?children = "[PDict [(''list'', PDict [(''elements'', PList
            [PDict [(''name'', PStr ''app1''), (''replicas'', PInt 1)],
             PDict [(''name'', PStr ''app2''), (''replicas'', PInt 2)],
             PDict [(''name'', PStr ''app1''), (''replicas'', PInt 3)]])])],
          PDict [(''list'', PDict [(''elements'', PList
            [PDict [(''name'', PStr ''app1''), (''env'', PStr ''prod'')],
             PDict [(''name'', PStr ''app9''), (''env'', PStr ''dev'')]])])]]"
  have i: "py_iter (PList [PStr ''name'']) = Inr [PStr ''name'']" by simp
  have h: "\<forall>k \<in> set [PStr ''name'']. hashable k" by simp
  have nk: "spec_merge_key scalar_text [PStr ''name''] [(''name'', PStr ''app9''), (''env'', PStr ''dev'')]
       \<notin> spec_merge_key scalar_text [PStr ''name''] ` set ?first"
    by code_simp
  have d: "distinct (map fst [(''name'', PStr ''app9''), (''env'', PStr ''dev'')])" by simp
  have g: "dict_get_default example_merge_config ''generators'' (PList []) = PList ?children"
    by (simp add: example_merge_config_def dict_get_default_def)
  have mk: "dict_get_default example_merge_config ''mergeKeys'' (PList []) = PList [PStr ''name'']"
    by (simp add: example_merge_config_def dict_get_default_def)
  have c: "expand_children scalar_text example_env ?children = ([], Inr [?first, ?second])"
    by code_simp
  have t: "join_with ''|'' (map (spec_param_text scalar_text [(''replicas'', PInt 1)]) [PStr ''name''])
      = ''''"
    by code_simp
  have e: "spec_merge scalar_text [PStr ''name''] ?first (concat [?second])
      = [[(''name'', PStr ''app1''), (''replicas'', PInt 3), (''env'', PStr ''prod'')],
         [(''name'', PStr ''app2''), (''replicas'', PInt 2)]]"
    by code_simp
  note inst = merge_generator_seeded_and_bounded [OF i h, of scalar_text "[(''replicas'', PInt 1)]"
      ?first "[?second]" "[(''name'', PStr ''app9''), (''env'', PStr ''dev'')]" "[]" "[]"
      "[]" "''name''" example_merge_config ?children example_env "[]"]
  have run: "expand_merge_generator scalar_text example_env (PDict example_merge_config)
      = ([], Inr (spec_merge scalar_text [PStr ''name''] ?first (concat [?second])))"
    using inst g mk c by blast
  have key: "make_merge_key scalar_text [(''replicas'', PInt 1)] (PList [PStr ''name'']) = Inr ''''"
    using inst t by simp
  show ?thesis
    using i h nk d c run key e by simp
qed

text \<open>
  C9. When the first child has several parameter sets with one merge key, the later one
  replaces the earlier one in the seeding: the output has exactly one entry per distinct
  merge key of the first child, without later children that entry is the last parameter
  set with the key, and the output is strictly shorter than the first child's output as
  soon as two of its parameter sets share a merge key.
\<close>

theorem merge_generator_one_entry_per_key:
  assumes "py_iter merge_keys = Inr ks" and "\<forall>k \<in> set ks. hashable k"
  shows "merge_children fmt merge_keys [first_params]
      = Inr (map (\<lambda>key. last (filter (\<lambda>p. spec_merge_key fmt ks p = key) first_params))
               (first_occurrences (map (spec_merge_key fmt ks) first_params)))
    \<and> merge_children fmt merge_keys (first_params # others)
      = Inr (spec_merge fmt ks first_params (concat others))
    \<and> length (spec_merge fmt ks first_params (concat others))
      = card (spec_merge_key fmt ks ` set first_params)
    \<and> (\<not> distinct (map (spec_merge_key fmt ks) first_params) \<longrightarrow>
         length (spec_merge fmt ks first_params (concat others)) < length first_params)"
proof -
  let ?keys = "map (spec_merge_key fmt ks) first_params"
  have single: "merge_children fmt merge_keys [first_params]
      = Inr (map (\<lambda>key. last (filter (\<lambda>p. spec_merge_key fmt ks p = key) first_params))
               (first_occurrences ?keys))"
    using merge_children_spec [OF assms, of fmt first_params "[]"]
    by (simp add: spec_merge_def spec_merged_entry_def)
  have merge: "merge_children fmt merge_keys (first_params # others)
      = Inr (spec_merge fmt ks first_params (concat others))"
    using assms by (rule merge_children_spec)
  have len: "length (spec_merge fmt ks first_params (concat others))
      = card (spec_merge_key fmt ks ` set first_params)"
    by (rule spec_merge_length)
  have strict: "\<not> distinct ?keys \<longrightarrow>
         length (spec_merge fmt ks first_params (concat others)) < length first_params"
  proof
    assume nd: "\<not> distinct ?keys"
    have "card (set ?keys) \<le> length ?keys" by (rule card_length)
    moreover have "card (set ?keys) \<noteq> length ?keys" using nd card_distinct by blast
    ultimately have "card (set ?keys) < length ?keys" by simp
    then show "length (spec_merge fmt ks first_params (concat others)) < length first_params"
      using len by simp
  qed
  show ?thesis using single merge len strict by (intro conjI)
qed

theorem merge_generator_one_entry_per_key_witness:
  "py_iter (PList [PStr ''name'']) = Inr [PStr ''name'']
   \<and> hashable (PStr ''name'')
   \<and> \<not> distinct (map (spec_merge_key scalar_text [PStr ''name''])
          [[(''name'', PStr ''app1''), (''replicas'', PInt 1)],
           [(''name'', PStr ''app2''), (''replicas'', PInt 2)],
           [(''name'', PStr ''app1''), (''replicas'', PInt 3)]])
   \<and> merge_children scalar_text (PList [PStr ''name''])
        [[[(''name'', PStr ''app1''), (''replicas'', PInt 1)],
          [(''name'', PStr ''app2''), (''replicas'', PInt 2)],
          [(''name'', PStr ''app1''), (''replicas'', PInt 3)]]]
      = Inr [[(''name'', PStr ''app1''), (''replicas'', PInt 3)],
             [(''name'', PStr ''app2''), (''replicas'', PInt 2)]]
   \<and> length (spec_merge scalar_text [PStr ''name'']
        [[(''name'', PStr ''app1''), (''replicas'', PInt 1)],
         [(''name'', PStr ''app2''), (''replicas'', PInt 2)],
         [(''name'', PStr ''app1''), (''replicas'', PInt 3)]] (concat []))
      < length [[(''name'', PStr ''app1''), (''replicas'', PInt 1)],
                [(''name'', PStr ''app2''), (''replicas'', PInt 2)],
                [(''name'', PStr ''app1''), (''replicas'', PInt 3)]]"
proof -
  let ?first = "[[(''name'', PStr ''app1''), (''replicas'', PInt 1)],
                   [(''name'', PStr ''app2''), (''replicas'', PInt 2)],
                   [(''name'', PStr ''app1''), (''replicas'', PInt 3)]]"
  have i: "py_iter (PList [PStr ''name'']) = Inr [PStr ''name'']" by simp
  have h: "\<forall>k \<in> set [PStr ''name'']. hashable k" by simp
  have nd: "\<not> distinct (map (spec_merge_key scalar_text [PStr ''name'']) ?first)"
    by code_simp
  have e: "map (\<lambda>key. last (filter (\<lambda>p. spec_merge_key scalar_text [PStr ''name''] p = key) ?first))
               (first_occurrences (map (spec_merge_key scalar_text [PStr ''name'']) ?first))
      = [[(''name'', PStr ''app1''), (''replicas'', PInt 3)],
         [(''name'', PStr ''app2''), (''replicas'', PInt 2)]]"
    by code_simp
  show ?thesis
    using i h nd e merge_generator_one_entry_per_key [OF i h, of scalar_text ?first "[]"]
    by simp
qed


end
